theory Spec2Isabelle
  imports Complex_Main
begin

section \<open>Excitation signals with random phases: a shallow embedding\<close>

text \<open>
  The development follows \<^verbatim>\<open>src/src/excitation_signal.py\<close>, class
  \<^verbatim>\<open>ExcitationSignal\<close>. A one-dimensional numpy array is a list, a two- or
  three-dimensional one a list of rows. Counts (\<^verbatim>\<open>N\<close>, \<^verbatim>\<open>m\<close>,
  \<^verbatim>\<open>p\<close>, \<^verbatim>\<open>nr_inputs\<close>) are natural numbers, array positions are
  Python integers (\<^typ>\<open>int\<close>), so that a negative position wraps around as numpy's does.
  Every exception of the source is a value of \<open>error\<close>. No arithmetic is idealised: the
  stamps are computed under a rounding operator, and the spectra, the inverse transform and
  the normalization under a record of numpy's own operations (its rounding, its \<open>\<pi>\<close>, its
  exponential and its inverse transform), with numpy's \<open>NaN\<close> and infinities where a division
  by zero produces them. Exact real arithmetic and binary64 are instances.
\<close>

subsection \<open>Errors and floating-point values\<close>

datatype error = IndexError | ValueError | ZeroDivisionError | UnboundLocalError

text \<open>
  A float64 that numpy may produce: a finite number, or one of the three special values.
  Dividing arrays never raises in numpy; a zero divisor yields \<open>NaN\<close> or an infinity.
\<close>

datatype fval = Finite real | NaN | PInf | NInf

text \<open>
  Arithmetic is parametrised by a rounding operator \<open>rd\<close>, applied after every exact
  operation of the stamp computations: the identity gives exact real arithmetic,
  \<open>f64\<close> below gives IEEE binary64 with round-to-nearest-even.
\<close>

definition np_divide :: "(real \<Rightarrow> real) \<Rightarrow> real \<Rightarrow> real \<Rightarrow> fval" where
  "np_divide rd a b =
     (if b \<noteq> 0 then Finite (rd (a / b))
      else if a = 0 then NaN else if 0 < a then PInf else NInf)"

subsection \<open>IEEE binary64 rounding\<close>

definition round_half_even :: "real \<Rightarrow> int" where
  "round_half_even x =
     (let n = \<lfloor>x\<rfloor>; d = x - of_int n
      in if d < 1 / 2 then n else if 1 / 2 < d then n + 1 else if even n then n else n + 1)"

fun log2_floor :: "nat \<Rightarrow> nat" where
  "log2_floor n = (if n < 2 then 0 else Suc (log2_floor (n div 2)))"

declare log2_floor.simps [simp del]

text \<open>The binary exponent \<open>\<lfloor>log\<^sub>2 \<bar>x\<bar>\<rfloor>\<close> of a non-zero number.\<close>

definition exponent :: "real \<Rightarrow> int" where
  "exponent x =
     (let a = \<bar>x\<bar>
      in if 1 \<le> a then int (log2_floor (nat \<lfloor>a\<rfloor>))
         else - int (Suc (log2_floor (nat (\<lceil>1 / a\<rceil> - 1)))))"

text \<open>
  The nearest binary64 number: 53 significant bits, ties to even, gradual underflow below
  \<open>2\<^sup>-\<^sup>1\<^sup>0\<^sup>2\<^sup>2\<close>. Overflow to infinity is left out: the model is meant for
  \<open>\<bar>x\<bar> < 2\<^sup>1\<^sup>0\<^sup>2\<^sup>4\<close>.
\<close>

definition f64 :: "real \<Rightarrow> real" where
  "f64 x =
     (if x = 0 then 0
      else let e = max (exponent x) (- 1022) - 52
           in of_int (round_half_even (x / 2 powi e)) * 2 powi e)"

subsection \<open>Stamps and the frequency-band index\<close>

text \<open>
  \<^verbatim>\<open>return f / N\<close> on a Python float and a Python int: a zero \<^verbatim>\<open>N\<close> raises
  ZeroDivisionError.
\<close>

definition get_sampling_interval :: "(real \<Rightarrow> real) \<Rightarrow> real \<Rightarrow> nat \<Rightarrow> error + real" where
  "get_sampling_interval rd f N =
     (if N = 0 then Inl ZeroDivisionError else Inr (rd (f / real N)))"

text \<open>\<^verbatim>\<open>return 1 / df\<close>, again on Python scalars.\<close>

definition get_total_time :: "(real \<Rightarrow> real) \<Rightarrow> real \<Rightarrow> error + real" where
  "get_total_time rd df = (if df = 0 then Inl ZeroDivisionError else Inr (rd (1 / df)))"

text \<open>\<^verbatim>\<open>return np.arange(0, N) / f\<close>\<close>

definition get_time_stamp :: "(real \<Rightarrow> real) \<Rightarrow> real \<Rightarrow> nat \<Rightarrow> fval list" where
  "get_time_stamp rd f N = map (\<lambda>i. np_divide rd (real i) f) [0..<N]"

text \<open>
  \<^verbatim>\<open>return np.arange(0, N) / N * f\<close>: the division comes first, then the product.
  The array is empty when \<^verbatim>\<open>N\<close> is zero, so the divisor is never zero.
\<close>

definition get_freq_stamp :: "(real \<Rightarrow> real) \<Rightarrow> real \<Rightarrow> nat \<Rightarrow> real list" where
  "get_freq_stamp rd f N = map (\<lambda>i. rd (rd (real i / real N) * f)) [0..<N]"

text \<open>\<^verbatim>\<open>np.where(f_stamp == v)[0]\<close>: the positions of the entries equal to \<open>v\<close>, in order.\<close>

definition np_where :: "real list \<Rightarrow> real \<Rightarrow> int list" where
  "np_where f_stamp v = map int (filter (\<lambda>i. f_stamp ! i = v) [0..<length f_stamp])"

text \<open>The trailing \<^verbatim>\<open>[0]\<close>: the first entry, IndexError on an empty array.\<close>

definition item0 :: "'a list \<Rightarrow> error + 'a" where
  "item0 xs = (case xs of [] \<Rightarrow> Inl IndexError | x # _ \<Rightarrow> Inr x)"

definition get_freq_index :: "real \<times> real \<Rightarrow> real list \<Rightarrow> error + int \<times> int" where
  "get_freq_index freq_range f_stamp =
     (case item0 (np_where f_stamp (fst freq_range)) of
        Inl e \<Rightarrow> Inl e
      | Inr i \<Rightarrow>
          (case item0 (np_where f_stamp (snd freq_range)) of
             Inl e \<Rightarrow> Inl e
           | Inr j \<Rightarrow> Inr (i, j)))"

text \<open>The attributes of an instance, \<^verbatim>\<open>self.x\<close> as \<open>self_x\<close>.\<close>

record excitation_signal =
  self_freq_range :: "real \<times> real"
  self_f :: real
  self_N :: nat
  self_amp :: real
  self_eps :: real
  self_df :: real
  self_T :: real
  self_t_stamp :: "fval list"
  self_f_stamp :: "real list"
  self_idx :: "int \<times> int"

text \<open>
  \<^verbatim>\<open>initialization\<close> computes the five derived attributes in the order of the
  source; the first exception ends it.
\<close>

definition initialization ::
  "(real \<Rightarrow> real) \<Rightarrow> real \<times> real \<Rightarrow> real \<Rightarrow> nat \<Rightarrow>
     error + real \<times> real \<times> fval list \<times> real list \<times> (int \<times> int)" where
  "initialization rd freq_range f N =
     (case get_sampling_interval rd f N of
        Inl e \<Rightarrow> Inl e
      | Inr df \<Rightarrow>
          (case get_total_time rd df of
             Inl e \<Rightarrow> Inl e
           | Inr T \<Rightarrow>
               (let t_stamp = get_time_stamp rd f N;
                    f_stamp = get_freq_stamp rd f N
                in case get_freq_index freq_range f_stamp of
                     Inl e \<Rightarrow> Inl e
                   | Inr idx \<Rightarrow> Inr (df, T, t_stamp, f_stamp, idx))))"

text \<open>The constructor \<^verbatim>\<open>__init__\<close>.\<close>

definition ExcitationSignal ::
  "(real \<Rightarrow> real) \<Rightarrow> real \<times> real \<Rightarrow> real \<Rightarrow> nat \<Rightarrow> real \<Rightarrow> real \<Rightarrow> error + excitation_signal" where
  "ExcitationSignal rd freq_range f N amp eps =
     (case initialization rd freq_range f N of
        Inl e \<Rightarrow> Inl e
      | Inr (df, T, t_stamp, f_stamp, idx) \<Rightarrow>
          Inr \<lparr>self_freq_range = freq_range, self_f = f, self_N = N, self_amp = amp,
                self_eps = eps, self_df = df, self_T = T, self_t_stamp = t_stamp,
                self_f_stamp = f_stamp, self_idx = idx\<rparr>)"

subsection \<open>Single-signal synthesis\<close>

text \<open>
  \<^verbatim>\<open>U_amp = np.zeros(N); U_amp[np.arange(idx[0], idx[1] + 1)] = amp; U_amp[0] = 0\<close>.
  Assigning through an index array raises IndexError when a position lies outside
  \<open>[-N, N)\<close>, and a negative position counts from the end. The last assignment raises on
  an empty array.
\<close>

definition get_frequency_amplitude :: "nat \<Rightarrow> real \<Rightarrow> int \<times> int \<Rightarrow> error + real list" where
  "get_frequency_amplitude N amp idx =
     (let U_amp = replicate N 0;
          idx_vector = [fst idx..snd idx]
      in if \<exists>j \<in> set idx_vector. j < - int N \<or> int N \<le> j then Inl IndexError
         else let U_amp = foldl (\<lambda>a j. a[nat (j mod int N) := amp]) U_amp idx_vector
              in if N = 0 then Inl IndexError else Inr (U_amp[0 := 0]))"

text \<open>
  The operations of numpy that the synthesis uses. \<open>np_fl\<close> rounds the exact result of one
  arithmetic operation to a float64; \<open>np_pi\<close> is the constant \<^verbatim>\<open>np.pi\<close>; \<open>np_exp\<close> is
  \<^verbatim>\<open>np.exp\<close> on a complex number; \<open>np_ifft U n\<close> is entry \<open>n\<close> of \<^verbatim>\<open>np.fft.ifft(U)\<close>,
  an array as long as \<open>U\<close>. Nothing is assumed about them: every statement about a record
  \<open>np\<close> holds for the float64 operations of the library and for the exact ones alike.
\<close>

record numpy =
  np_fl :: "real \<Rightarrow> real"
  np_pi :: real
  np_exp :: "complex \<Rightarrow> complex"
  np_ifft :: "complex list \<Rightarrow> nat \<Rightarrow> complex"

text \<open>
  The inverse discrete Fourier transform \<open>x\<^sub>n = (1 / N) \<Sum>\<^sub>k U\<^sub>k exp (2\<pi>\<i> k n / N)\<close>, and the
  operations of exact arithmetic.
\<close>

definition idft :: "complex list \<Rightarrow> nat \<Rightarrow> complex" where
  "idft U n =
     (\<Sum>k\<leftarrow>[0..<length U].
        U ! k * exp (\<i> * of_real (2 * pi * real k * real n / real (length U))))
     / of_nat (length U)"

definition exact_numpy :: numpy where
  "exact_numpy = \<lparr>np_fl = (\<lambda>x. x), np_pi = pi, np_exp = exp, np_ifft = idft\<rparr>"

text \<open>
  The global generator of numpy is a stream \<open>g\<close> of draws from \<open>[0, 1)\<close> together with
  the number \<open>k\<close> of draws consumed so far. \<^verbatim>\<open>np.random.rand(N) * 2 * np.pi\<close> takes the
  next \<open>N\<close> draws; each of the two products rounds.
\<close>

definition get_random_phase :: "numpy \<Rightarrow> (nat \<Rightarrow> real) \<Rightarrow> nat \<Rightarrow> nat \<Rightarrow> real list \<times> nat" where
  "get_random_phase np g k N =
     (map (\<lambda>i. np_fl np (np_fl np (g (k + i) * 2) * np_pi np)) [0..<N], k + N)"

text \<open>
  \<^verbatim>\<open>U_amp * np.exp(1j * U_phase)\<close>, elementwise; the two arrays have the same length
  at every call of the source. \<^verbatim>\<open>1j * ph\<close> is the complex number with real part zero
  and imaginary part \<open>ph\<close>; the product of the real amplitude with the exponential rounds
  in each component.
\<close>

definition get_complex_signal :: "numpy \<Rightarrow> real list \<Rightarrow> real list \<Rightarrow> complex list" where
  "get_complex_signal np U_amp U_phase =
     map2 (\<lambda>a ph. let z = np_exp np (Complex 0 ph)
                  in Complex (np_fl np (a * Re z)) (np_fl np (a * Im z))) U_amp U_phase"

definition get_frequency_signal ::
  "numpy \<Rightarrow> (nat \<Rightarrow> real) \<Rightarrow> nat \<Rightarrow> nat \<Rightarrow> real \<Rightarrow> int \<times> int \<Rightarrow>
     error + (complex list \<times> real list \<times> real list) \<times> nat" where
  "get_frequency_signal np g k N amp idx =
     (case get_frequency_amplitude N amp idx of
        Inl e \<Rightarrow> Inl e
      | Inr U_amp \<Rightarrow>
          (let (U_phase, k') = get_random_phase np g k N;
               U = get_complex_signal np U_amp U_phase
           in Inr ((U, U_amp, U_phase), k')))"

text \<open>\<^verbatim>\<open>np.fft.ifft(U)\<close>; numpy refuses an empty array with ValueError.\<close>

definition ifft :: "numpy \<Rightarrow> complex list \<Rightarrow> error + complex list" where
  "ifft np U = (if U = [] then Inl ValueError else Inr (map (np_ifft np U) [0..<length U]))"

text \<open>\<^verbatim>\<open>return np.real(np.fft.ifft(U))\<close>\<close>

definition get_time_signal :: "numpy \<Rightarrow> complex list \<Rightarrow> error + real list" where
  "get_time_signal np U = (case ifft np U of Inl e \<Rightarrow> Inl e | Inr x \<Rightarrow> Inr (map Re x))"

text \<open>\<^verbatim>\<open>np.max\<close> raises ValueError on an empty array.\<close>

definition np_max :: "real list \<Rightarrow> error + real" where
  "np_max xs = (case xs of [] \<Rightarrow> Inl ValueError | x # rest \<Rightarrow> Inr (fold max rest x))"

text \<open>\<^verbatim>\<open>return u/np.max(np.abs(u))\<close>; the quotients round.\<close>

definition get_normalization :: "numpy \<Rightarrow> real list \<Rightarrow> error + fval list" where
  "get_normalization np u =
     (case np_max (map abs u) of
        Inl e \<Rightarrow> Inl e
      | Inr mx \<Rightarrow> Inr (map (\<lambda>x. np_divide (np_fl np) x mx) u))"

subsection \<open>Feasibility search\<close>

text \<open>Subtraction, absolute value and comparison with a finite number, on float64 values.\<close>

fun fval_sub :: "(real \<Rightarrow> real) \<Rightarrow> fval \<Rightarrow> fval \<Rightarrow> fval" where
  "fval_sub rd (Finite a) (Finite b) = Finite (rd (a - b))"
| "fval_sub rd NaN y = NaN"
| "fval_sub rd x NaN = NaN"
| "fval_sub rd PInf PInf = NaN"
| "fval_sub rd NInf NInf = NaN"
| "fval_sub rd PInf y = PInf"
| "fval_sub rd NInf y = NInf"
| "fval_sub rd x PInf = NInf"
| "fval_sub rd x NInf = PInf"

fun fval_abs :: "fval \<Rightarrow> fval" where
  "fval_abs (Finite a) = Finite \<bar>a\<bar>"
| "fval_abs NaN = NaN"
| "fval_abs PInf = PInf"
| "fval_abs NInf = PInf"

fun fval_gt :: "fval \<Rightarrow> real \<Rightarrow> bool" where
  "fval_gt (Finite a) e = (e < a)"
| "fval_gt NaN e = False"
| "fval_gt PInf e = True"
| "fval_gt NInf e = False"

fun fval_le :: "fval \<Rightarrow> real \<Rightarrow> bool" where
  "fval_le (Finite a) e = (a \<le> e)"
| "fval_le NaN e = False"
| "fval_le PInf e = False"
| "fval_le NInf e = True"

text \<open>\<^verbatim>\<open>u[i]\<close> for a position \<open>i \<ge> 0\<close>.\<close>

definition item :: "'a list \<Rightarrow> nat \<Rightarrow> error + 'a" where
  "item xs i = (if i < length xs then Inr (xs ! i) else Inl IndexError)"

text \<open>\<^verbatim>\<open>self._get_normalization(self.get_time_signal(U))\<close>\<close>

definition normalized_time_signal :: "numpy \<Rightarrow> complex list \<Rightarrow> error + fval list" where
  "normalized_time_signal np U =
     (case get_time_signal np U of Inl e \<Rightarrow> Inl e | Inr x \<Rightarrow> get_normalization np x)"

text \<open>\<^verbatim>\<open>np.abs(u[0] - u[1])\<close>\<close>

definition first_difference :: "numpy \<Rightarrow> fval list \<Rightarrow> error + fval" where
  "first_difference np u =
     (case item u 0 of
        Inl e \<Rightarrow> Inl e
      | Inr u0 \<Rightarrow>
          (case item u 1 of
             Inl e \<Rightarrow> Inl e
           | Inr u1 \<Rightarrow> Inr (fval_abs (fval_sub (np_fl np) u0 u1))))"

text \<open>
  The body of the \<^verbatim>\<open>while\<close> loop of \<^verbatim>\<open>get_one_feasible_signal\<close>: one synthesis
  attempt. It yields the new \<^verbatim>\<open>diff\<close>, the pair \<^verbatim>\<open>(U_amp, U_phase)\<close> and the
  position of the generator.
\<close>

definition loop_body ::
  "numpy \<Rightarrow> (nat \<Rightarrow> real) \<Rightarrow> nat \<Rightarrow> nat \<Rightarrow> real \<Rightarrow> int \<times> int \<Rightarrow>
     error + fval \<times> (real list \<times> real list) \<times> nat" where
  "loop_body np g k N amp idx =
     (case get_frequency_signal np g k N amp idx of
        Inl e \<Rightarrow> Inl e
      | Inr ((U, U_amp, U_phase), k') \<Rightarrow>
          (case normalized_time_signal np U of
             Inl e \<Rightarrow> Inl e
           | Inr u \<Rightarrow>
               (case first_difference np u of
                  Inl e \<Rightarrow> Inl e
                | Inr diff \<Rightarrow> Inr (diff, (U_amp, U_phase), k'))))"

text \<open>
  \<^verbatim>\<open>while diff > self.eps: ...\<close> followed by \<^verbatim>\<open>return U_amp, U_phase\<close>. The
  loop has no bound, so the result is optional: \<open>None\<close> when the loop runs forever. The
  variables \<^verbatim>\<open>U_amp\<close> and \<^verbatim>\<open>U_phase\<close> are bound by the first execution of
  the body only; \<open>vars\<close> is \<open>None\<close> until then, and returning them unbound raises
  UnboundLocalError.
\<close>

partial_function (option) while_loop ::
  "numpy \<Rightarrow> (nat \<Rightarrow> real) \<Rightarrow> real \<Rightarrow> nat \<Rightarrow> real \<Rightarrow> int \<times> int \<Rightarrow> fval \<Rightarrow>
     (real list \<times> real list) option \<Rightarrow> nat \<Rightarrow>
     (error + (real list \<times> real list) \<times> nat) option" where
  "while_loop np g eps N amp idx diff vars k =
     (if fval_gt diff eps then
        (case loop_body np g k N amp idx of
           Inl e \<Rightarrow> Some (Inl e)
         | Inr (diff', vars', k') \<Rightarrow> while_loop np g eps N amp idx diff' (Some vars') k')
      else
        (case vars of
           None \<Rightarrow> Some (Inl UnboundLocalError)
         | Some v \<Rightarrow> Some (Inr (v, k))))"

definition get_one_feasible_signal ::
  "numpy \<Rightarrow> excitation_signal \<Rightarrow> (nat \<Rightarrow> real) \<Rightarrow> nat \<Rightarrow> nat \<Rightarrow> real \<Rightarrow> int \<times> int \<Rightarrow>
     (error + (real list \<times> real list) \<times> nat) option" where
  "get_one_feasible_signal np self g k N amp idx =
     while_loop np g (self_eps self) N amp idx (Finite 1000) None k"

subsection \<open>Multi-channel and multi-trial assembly\<close>

text \<open>
  \<^verbatim>\<open>for i in range(n): ...\<close> over a state; an exception or a search that does not
  return ends the loop.
\<close>

fun for_loop ::
  "(nat \<Rightarrow> 's \<Rightarrow> (error + 's) option) \<Rightarrow> nat list \<Rightarrow> 's \<Rightarrow> (error + 's) option" where
  "for_loop body [] s = Some (Inr s)"
| "for_loop body (i # rest) s =
     (case body i s of
        None \<Rightarrow> None
      | Some (Inl e) \<Rightarrow> Some (Inl e)
      | Some (Inr s') \<Rightarrow> for_loop body rest s')"

text \<open>
  The body of the loop of the \<^verbatim>\<open>'orthogonal'\<close> branch of \<^verbatim>\<open>get_signals\<close>;
  \<open>U_amp0\<close> and \<open>U_phase0\<close> are \<^verbatim>\<open>_U_amp\<close> and \<^verbatim>\<open>_U_phase\<close>. The shift
  \<^verbatim>\<open>2 * np.pi * i / nr_inputs\<close> rounds after each of its three operations, and so does
  its sum with a phase.
\<close>

definition orthogonal_channel ::
  "numpy \<Rightarrow> nat \<Rightarrow> real list \<Rightarrow> real list \<Rightarrow> nat \<Rightarrow>
     real list list \<times> real list list \<times> fval list list \<times> nat \<Rightarrow>
     (error + real list list \<times> real list list \<times> fval list list \<times> nat) option" where
  "orthogonal_channel np nr_inputs U_amp0 U_phase0 i s =
     (case s of (U_amp, U_phase, u, k) \<Rightarrow>
        (let phase_shift =
               np_fl np (np_fl np (np_fl np (2 * np_pi np) * real i) / real nr_inputs);
             U_amp = U_amp[i := U_amp0];
             U_phase = U_phase[i := map (\<lambda>x. np_fl np (x + phase_shift)) U_phase0];
             U = get_complex_signal np (U_amp ! i) (U_phase ! i)
         in case normalized_time_signal np U of
              Inl e \<Rightarrow> Some (Inl e)
            | Inr r \<Rightarrow> Some (Inr (U_amp, U_phase, u[i := r], k))))"

text \<open>The body of the loop of the \<^verbatim>\<open>'random'\<close> branch.\<close>

definition random_channel ::
  "numpy \<Rightarrow> excitation_signal \<Rightarrow> (nat \<Rightarrow> real) \<Rightarrow> nat \<Rightarrow> real \<Rightarrow> int \<times> int \<Rightarrow> nat \<Rightarrow>
     real list list \<times> real list list \<times> fval list list \<times> nat \<Rightarrow>
     (error + real list list \<times> real list list \<times> fval list list \<times> nat) option" where
  "random_channel np self g N amp idx i s =
     (case s of (U_amp, U_phase, u, k) \<Rightarrow>
        (case get_one_feasible_signal np self g k N amp idx of
           None \<Rightarrow> None
         | Some (Inl e) \<Rightarrow> Some (Inl e)
         | Some (Inr ((a, ph), k')) \<Rightarrow>
             (let U_amp = U_amp[i := a];
                  U_phase = U_phase[i := ph];
                  U = get_complex_signal np (U_amp ! i) (U_phase ! i)
              in case normalized_time_signal np U of
                   Inl e \<Rightarrow> Some (Inl e)
                 | Inr r \<Rightarrow> Some (Inr (U_amp, U_phase, u[i := r], k')))))"

text \<open>
  \<^verbatim>\<open>get_signals\<close>; the result carries the position of the generator after the call.
  A mode that is neither \<^verbatim>\<open>'orthogonal'\<close> nor \<^verbatim>\<open>'random'\<close> falls through both
  branches and returns the zero arrays.
\<close>

definition get_signals ::
  "numpy \<Rightarrow> excitation_signal \<Rightarrow> (nat \<Rightarrow> real) \<Rightarrow> nat \<Rightarrow> nat \<Rightarrow> real \<Rightarrow> nat \<Rightarrow> int \<times> int \<Rightarrow> string \<Rightarrow>
     (error + real list list \<times> real list list \<times> fval list list \<times> nat) option" where
  "get_signals np self g k N amp nr_inputs idx mode =
     (let U_amp = replicate nr_inputs (replicate N 0);
          U_phase = replicate nr_inputs (replicate N 0);
          u = replicate nr_inputs (replicate N (Finite 0))
      in if mode = ''orthogonal'' then
           (case get_one_feasible_signal np self g k N amp idx of
              None \<Rightarrow> None
            | Some (Inl e) \<Rightarrow> Some (Inl e)
            | Some (Inr ((U_amp0, U_phase0), k')) \<Rightarrow>
                for_loop (orthogonal_channel np nr_inputs U_amp0 U_phase0) [0..<nr_inputs]
                  (U_amp, U_phase, u, k'))
         else if mode = ''random'' then
           for_loop (random_channel np self g N amp idx) [0..<nr_inputs] (U_amp, U_phase, u, k)
         else Some (Inr (U_amp, U_phase, u, k)))"

text \<open>
  \<^verbatim>\<open>np.tile(u, (1, 1, p))\<close> repeats every row \<open>p\<close> times along the last axis, and
  \<^verbatim>\<open>reshape(nr_inputs, -1)\<close> joins the rows of a channel; numpy cannot infer the
  missing dimension when \<^verbatim>\<open>nr_inputs\<close> is zero and raises ValueError.
\<close>

definition get_repeat_signals :: "'a list list list \<Rightarrow> nat \<Rightarrow> error + 'a list list" where
  "get_repeat_signals u p =
     (let us = map (map (\<lambda>row. concat (replicate p row))) u
      in if u = [] then Inl ValueError else Inr (map concat us))"

text \<open>\<^verbatim>\<open>A[:, i, :] = B\<close>: row \<open>i\<close> of every channel of \<open>A\<close> becomes that channel's row of \<open>B\<close>.\<close>

definition set_trial :: "'a list list list \<Rightarrow> nat \<Rightarrow> 'a list list \<Rightarrow> 'a list list list" where
  "set_trial A i B = map2 (\<lambda>rows b. rows[i := b]) A B"

text \<open>The body of the loop over the trials of \<^verbatim>\<open>get_multi_signals\<close>.\<close>

definition trial ::
  "numpy \<Rightarrow> excitation_signal \<Rightarrow> (nat \<Rightarrow> real) \<Rightarrow> nat \<Rightarrow> string \<Rightarrow> nat \<Rightarrow>
     real list list list \<times> real list list list \<times> fval list list list \<times> nat \<Rightarrow>
     (error + real list list list \<times> real list list list \<times> fval list list list \<times> nat) option" where
  "trial np self g nr_inputs mode i s =
     (case s of (U_amp, U_phase, u, k) \<Rightarrow>
        (case get_signals np self g k (self_N self) (self_amp self) nr_inputs (self_idx self) mode of
           None \<Rightarrow> None
         | Some (Inl e) \<Rightarrow> Some (Inl e)
         | Some (Inr (a, ph, r, k')) \<Rightarrow>
             Some (Inr (set_trial U_amp i a, set_trial U_phase i ph, set_trial u i r, k'))))"

definition get_multi_signals ::
  "numpy \<Rightarrow> excitation_signal \<Rightarrow> (nat \<Rightarrow> real) \<Rightarrow> nat \<Rightarrow> nat \<Rightarrow> nat \<Rightarrow> nat \<Rightarrow> string \<Rightarrow>
     (error + (real list list list \<times> real list list list \<times> fval list list list \<times>
        fval list list) \<times> nat) option" where
  "get_multi_signals np self g k m p nr_inputs mode =
     (let U_amp = replicate nr_inputs (replicate m (replicate (self_N self) 0));
          U_phase = replicate nr_inputs (replicate m (replicate (self_N self) 0));
          u = replicate nr_inputs (replicate m (replicate (self_N self) (Finite 0)))
      in case for_loop (trial np self g nr_inputs mode) [0..<m] (U_amp, U_phase, u, k) of
           None \<Rightarrow> None
         | Some (Inl e) \<Rightarrow> Some (Inl e)
         | Some (Inr (U_amp, U_phase, u, k')) \<Rightarrow>
             (case get_repeat_signals u p of
                Inl e \<Rightarrow> Some (Inl e)
              | Inr us \<Rightarrow> Some (Inr ((U_amp, U_phase, u, us), k'))))"

subsection \<open>Shapes\<close>

text \<open>A three-dimensional array of shape \<open>(nr_inputs, m, N)\<close>, as a list of lists of rows.\<close>

definition has_shape :: "'a list list list \<Rightarrow> nat \<Rightarrow> nat \<Rightarrow> nat \<Rightarrow> bool" where
  "has_shape u nr_inputs m N \<longleftrightarrow>
     length u = nr_inputs \<and>
     (\<forall>rows \<in> set u. length rows = m \<and> (\<forall>row \<in> set rows. length row = N))"

definition has_shape2 :: "'a list list \<Rightarrow> nat \<Rightarrow> nat \<Rightarrow> bool" where
  "has_shape2 A nr_inputs N \<longleftrightarrow> length A = nr_inputs \<and> (\<forall>row \<in> set A. length row = N)"

text \<open>The three arrays that \<^verbatim>\<open>get_signals\<close> and \<^verbatim>\<open>get_multi_signals\<close> fill.\<close>

definition shapes2 ::
  "nat \<Rightarrow> nat \<Rightarrow> real list list \<times> real list list \<times> fval list list \<times> nat \<Rightarrow> bool" where
  "shapes2 nr_inputs N s \<longleftrightarrow>
     (case s of (A, P, u, k) \<Rightarrow>
        has_shape2 A nr_inputs N \<and> has_shape2 P nr_inputs N \<and> has_shape2 u nr_inputs N)"

definition shapes3 ::
  "nat \<Rightarrow> nat \<Rightarrow> nat \<Rightarrow>
     real list list list \<times> real list list list \<times> fval list list list \<times> nat \<Rightarrow> bool" where
  "shapes3 nr_inputs m N s \<longleftrightarrow>
     (case s of (A, P, u, k) \<Rightarrow>
        has_shape A nr_inputs m N \<and> has_shape P nr_inputs m N \<and> has_shape u nr_inputs m N)"

subsection \<open>What the feasibility search has checked\<close>

text \<open>
  \<open>checked np N amp idx diff v\<close>: the pair \<open>v = (U_amp, U_phase)\<close> is a synthesis attempt for
  \<open>(N, amp, idx)\<close>, and \<open>diff\<close> is \<^verbatim>\<open>np.abs(u[0] - u[1])\<close> of its normalized time signal.
\<close>

definition checked ::
  "numpy \<Rightarrow> nat \<Rightarrow> real \<Rightarrow> int \<times> int \<Rightarrow> fval \<Rightarrow> real list \<times> real list \<Rightarrow> bool" where
  "checked np N amp idx diff v \<longleftrightarrow>
     get_frequency_amplitude N amp idx = Inr (fst v) \<and> length (snd v) = N \<and>
     (\<exists>u. normalized_time_signal np (get_complex_signal np (fst v) (snd v)) = Inr u \<and>
          first_difference np u = Inr diff)"

section \<open>The frequency-band lookup\<close>

lemma np_where_nil_iff: "np_where f_stamp v = [] \<longleftrightarrow> v \<notin> set f_stamp"
  by (auto simp: np_where_def filter_empty_conv in_set_conv_nth)

lemma item0_np_where_absent:
  "v \<notin> set f_stamp \<Longrightarrow> item0 (np_where f_stamp v) = Inl IndexError"
  using np_where_nil_iff [of f_stamp v] by (simp add: item0_def)

lemma item0_np_where_present:
  assumes "v \<in> set f_stamp"
  shows "\<exists>i. item0 (np_where f_stamp v) = Inr i"
proof -
  from assms have "np_where f_stamp v \<noteq> []"
    using np_where_nil_iff [of f_stamp v] by simp
  then show ?thesis
    by (cases "np_where f_stamp v") (simp_all add: item0_def)
qed

lemma item0_np_where_sound:
  assumes "item0 (np_where f_stamp v) = Inr i"
  shows "0 \<le> i \<and> nat i < length f_stamp \<and> f_stamp ! nat i = v"
proof -
  from assms have "i \<in> set (np_where f_stamp v)"
    by (cases "np_where f_stamp v") (simp_all add: item0_def)
  then show ?thesis
    by (auto simp: np_where_def)
qed

text \<open>The first match: no earlier entry equals the value looked up.\<close>

lemma item0_np_where_first:
  assumes "item0 (np_where f_stamp v) = Inr i" and "k < nat i"
  shows "f_stamp ! k \<noteq> v"
proof
  assume eq: "f_stamp ! k = v"
  from assms(1) obtain rest where w: "np_where f_stamp v = i # rest"
    by (cases "np_where f_stamp v") (simp_all add: item0_def)
  have len: "nat i < length f_stamp"
    using item0_np_where_sound [OF assms(1)] by simp
  have srt: "sorted (np_where f_stamp v)"
    unfolding np_where_def by (simp add: sorted_map sorted_wrt_filter)
  have "int k \<in> set (np_where f_stamp v)"
    using eq assms(2) len by (auto simp: np_where_def)
  with w srt have "i \<le> int k" by auto
  with assms(2) show False by simp
qed

lemma item0_np_where_eq:
  assumes "k < length f_stamp" and "f_stamp ! k = v" and "\<forall>j<k. f_stamp ! j \<noteq> v"
  shows "item0 (np_where f_stamp v) = Inr (int k)"
proof -
  from assms(1,2) have "v \<in> set f_stamp" by (auto simp: in_set_conv_nth)
  then obtain i where i: "item0 (np_where f_stamp v) = Inr i"
    using item0_np_where_present by blast
  from item0_np_where_sound [OF i] have s: "0 \<le> i" "nat i < length f_stamp" "f_stamp ! nat i = v"
    by simp_all
  have "\<not> k < nat i"
    using item0_np_where_first [OF i] assms(2) by blast
  moreover have "\<not> nat i < k"
    using assms(3) s(3) by blast
  ultimately have "nat i = k" by simp
  with s(1) have "i = int k" by simp
  with i show ?thesis by simp
qed

text \<open>
  C4: \<^verbatim>\<open>get_freq_index\<close> is an exact-match lookup. Whenever it returns a pair, each
  index is a position of the stamp holding exactly the requested endpoint; it returns a
  pair whenever both endpoints occur in the stamp; and when an endpoint does not occur
  the call raises instead of returning an index. The exception of the source is numpy's
  IndexError, raised by the trailing \<^verbatim>\<open>[0]\<close> on the empty match array; it is the
  failure that the specification names ConfigurationError.
\<close>

theorem get_freq_index_exact:
  "(\<forall>i j. get_freq_index (f_lo, f_hi) f_stamp = Inr (i, j) \<longrightarrow>
       0 \<le> i \<and> nat i < length f_stamp \<and> f_stamp ! nat i = f_lo \<and>
       0 \<le> j \<and> nat j < length f_stamp \<and> f_stamp ! nat j = f_hi)
   \<and> (f_lo \<in> set f_stamp \<and> f_hi \<in> set f_stamp \<longrightarrow>
       (\<exists>i j. get_freq_index (f_lo, f_hi) f_stamp = Inr (i, j)))
   \<and> (f_lo \<notin> set f_stamp \<or> f_hi \<notin> set f_stamp \<longrightarrow>
       get_freq_index (f_lo, f_hi) f_stamp = Inl IndexError)"
proof (intro conjI allI impI)
  fix i j
  assume r: "get_freq_index (f_lo, f_hi) f_stamp = Inr (i, j)"
  then have a: "item0 (np_where f_stamp f_lo) = Inr i"
    and b: "item0 (np_where f_stamp f_hi) = Inr j"
    by (auto simp: get_freq_index_def split: sum.splits)
  from item0_np_where_sound [OF a] item0_np_where_sound [OF b]
  show "0 \<le> i" "nat i < length f_stamp" "f_stamp ! nat i = f_lo"
    "0 \<le> j" "nat j < length f_stamp" "f_stamp ! nat j = f_hi"
    by simp_all
next
  assume "f_lo \<in> set f_stamp \<and> f_hi \<in> set f_stamp"
  then obtain i j where "item0 (np_where f_stamp f_lo) = Inr i"
    and "item0 (np_where f_stamp f_hi) = Inr j"
    using item0_np_where_present by blast
  then show "\<exists>i j. get_freq_index (f_lo, f_hi) f_stamp = Inr (i, j)"
    by (simp add: get_freq_index_def)
next
  assume "f_lo \<notin> set f_stamp \<or> f_hi \<notin> set f_stamp"
  then show "get_freq_index (f_lo, f_hi) f_stamp = Inl IndexError"
  proof
    assume "f_lo \<notin> set f_stamp"
    then show ?thesis
      by (simp add: get_freq_index_def item0_np_where_absent)
  next
    assume "f_hi \<notin> set f_stamp"
    then have "item0 (np_where f_stamp f_hi) = Inl IndexError"
      by (rule item0_np_where_absent)
    moreover have "item0 (np_where f_stamp f_lo) = Inl IndexError \<or>
        (\<exists>i. item0 (np_where f_stamp f_lo) = Inr i)"
      using item0_np_where_absent item0_np_where_present by (cases "f_lo \<in> set f_stamp") auto
    ultimately show ?thesis
      by (auto simp: get_freq_index_def)
  qed
qed

theorem get_freq_index_exact_witness:
  "get_freq_index (1, 3) [0, 1, 2, 3] = Inr (1, 3)
   \<and> [0, 1, 2, 3 :: real] ! nat 1 = 1 \<and> [0, 1, 2, 3 :: real] ! nat 3 = 3
   \<and> (5 :: real) \<notin> set [0, 1, 2, 3]
   \<and> get_freq_index (1, 5) [0, 1, 2, 3] = Inl IndexError"
proof -
  have a: "get_freq_index (1, 3) [0, 1, 2, 3] = Inr (1, 3)"
    by (simp add: get_freq_index_def np_where_def item0_def upt_rec)
  have b: "(5 :: real) \<notin> set [0, 1, 2, 3]" by simp
  from get_freq_index_exact [of 1 3 "[0, 1, 2, 3]"] a
  have c: "[0, 1, 2, 3 :: real] ! nat 1 = 1 \<and> [0, 1, 2, 3 :: real] ! nat 3 = 3"
    by blast
  from get_freq_index_exact [of 1 5 "[0, 1, 2, 3]"] b
  have d: "get_freq_index (1, 5) [0, 1, 2, 3] = Inl IndexError"
    by blast
  from a b c d show ?thesis by blast
qed

section \<open>Rounding to binary64\<close>

text \<open>
  Rounding to nearest is monotone: the scaled significand is rounded monotonically within
  a binade, and a number of a lower binade rounds to at most the next power of two.
\<close>

lemma round_half_even_bounds: "\<lfloor>x\<rfloor> \<le> round_half_even x \<and> round_half_even x \<le> \<lfloor>x\<rfloor> + 1"
  by (simp add: round_half_even_def Let_def)

lemma round_half_even_of_int [simp]: "round_half_even (of_int k) = k"
  by (simp add: round_half_even_def Let_def)

lemma round_half_even_mono:
  assumes "x \<le> y"
  shows "round_half_even x \<le> round_half_even y"
proof (cases "\<lfloor>x\<rfloor> < \<lfloor>y\<rfloor>")
  case True
  then have "round_half_even x \<le> \<lfloor>y\<rfloor>"
    using round_half_even_bounds [of x] by simp
  then show ?thesis using round_half_even_bounds [of y] by simp
next
  case False
  with assms have eq: "\<lfloor>x\<rfloor> = \<lfloor>y\<rfloor>"
    using floor_mono [of x y] by simp
  from assms have "x - of_int \<lfloor>y\<rfloor> \<le> y - of_int \<lfloor>y\<rfloor>" by simp
  then show ?thesis
    by (auto simp: round_half_even_def Let_def eq)
qed

lemma round_half_even_minus: "round_half_even (- x) = - round_half_even x"
proof (cases "x = of_int \<lfloor>x\<rfloor>")
  case True
  then obtain k where "x = of_int k" ..
  then show ?thesis by (simp flip: of_int_minus)
next
  case False
  then have c: "\<lceil>x\<rceil> = \<lfloor>x\<rfloor> + 1" by (simp add: ceiling_altdef)
  have f: "\<lfloor>- x\<rfloor> = - \<lfloor>x\<rfloor> - 1"
    using c by (simp add: ceiling_def)
  have lt: "of_int \<lfloor>x\<rfloor> < x" using False by (metis floor_less_iff less_le of_int_floor_le order_refl)
  show ?thesis
    using lt by (auto simp: round_half_even_def Let_def f)
qed

lemma log2_floor_bounds:
  "0 < n \<Longrightarrow> 2 ^ log2_floor n \<le> n \<and> n < 2 ^ Suc (log2_floor n)"
proof (induction n rule: log2_floor.induct)
  case (1 n)
  show ?case
  proof (cases "n < 2")
    case True
    with "1.prems" have "n = 1" by simp
    then show ?thesis by (simp add: log2_floor.simps)
  next
    case False
    then have "0 < n div 2" by simp
    with "1.IH" False have IH: "2 ^ log2_floor (n div 2) \<le> n div 2"
      "n div 2 < 2 ^ Suc (log2_floor (n div 2))" by simp_all
    have l: "log2_floor n = Suc (log2_floor (n div 2))"
      using False by (subst log2_floor.simps) simp
    from IH(1) have "2 * 2 ^ log2_floor (n div 2) \<le> n" by simp
    moreover from IH(2) have "n < 2 * 2 ^ Suc (log2_floor (n div 2))" by simp
    ultimately show ?thesis by (simp add: l)
  qed
qed

lemma exponent_bounds:
  assumes "x \<noteq> 0"
  shows "2 powi exponent x \<le> \<bar>x\<bar> \<and> \<bar>x\<bar> < 2 powi (exponent x + 1)"
proof (cases "1 \<le> \<bar>x\<bar>")
  case True
  let ?n = "nat \<lfloor>\<bar>x\<bar>\<rfloor>"
  let ?k = "log2_floor ?n"
  from True have n: "0 < ?n" by simp
  have e: "exponent x = int ?k" using True by (simp add: exponent_def)
  from log2_floor_bounds [OF n] have b: "2 ^ ?k \<le> ?n" "?n < 2 ^ Suc ?k" by simp_all
  have nx: "real ?n \<le> \<bar>x\<bar>" by simp
  from b(1) have "(2 :: real) ^ ?k \<le> real ?n"
    by (metis of_nat_le_iff of_nat_numeral of_nat_power)
  then have lo: "(2 :: real) ^ ?k \<le> \<bar>x\<bar>" using nx by (rule order_trans)
  from b(2) have "?n + 1 \<le> 2 ^ Suc ?k" by simp
  then have "real (?n + 1) \<le> (2 :: real) ^ Suc ?k"
    by (metis of_nat_le_iff of_nat_numeral of_nat_power)
  moreover have "\<bar>x\<bar> < real (?n + 1)" 
    using True by (simp add: floor_less_iff [symmetric]) linarith
  ultimately have hi: "\<bar>x\<bar> < (2 :: real) ^ Suc ?k" by simp
  have "(2 :: real) powi (int ?k + 1) = 2 ^ Suc ?k"
    by (simp add: power_int_add)
  with lo hi show ?thesis by (simp add: e)
next
  case False
  define a where "a = \<bar>x\<bar>"
  define z where "z = 1 / a"
  define c where "c = \<lceil>z\<rceil>"
  define n where "n = nat (c - 1)"
  define k where "k = log2_floor n"
  from False assms have a: "0 < a" "a < 1" by (simp_all add: a_def)
  then have z: "1 < z" by (simp add: z_def)
  have cz: "of_int c - 1 < z" "z \<le> of_int c"
    unfolding c_def by linarith+
  from z cz(2) have "1 < (of_int c :: real)" by simp
  then have c: "2 \<le> c" by linarith
  then have n: "0 < n" and rn: "real n = of_int c - 1"
    by (simp_all add: n_def)
  have e: "exponent x = - int (Suc k)"
    using False by (simp add: exponent_def k_def n_def c_def z_def a_def)
  from log2_floor_bounds [OF n] have b: "2 ^ k \<le> n" "n < 2 ^ Suc k" by (simp_all add: k_def)
  from b(1) have "(2 :: real) ^ k \<le> real n"
    by (metis of_nat_le_iff of_nat_numeral of_nat_power)
  with rn cz(1) have "(2 :: real) ^ k < z" by simp
  then have hi: "a < 1 / 2 ^ k"
    using a(1) by (simp add: z_def field_simps)
  from b(2) have "n + 1 \<le> 2 ^ Suc k" by simp
  then have "real (n + 1) \<le> (2 :: real) ^ Suc k"
    by (metis of_nat_le_iff of_nat_numeral of_nat_power)
  with rn cz(2) have "z \<le> (2 :: real) ^ Suc k" by simp
  then have lo: "1 / 2 ^ Suc k \<le> a"
    using a(1) by (simp add: z_def field_simps)
  have p1: "(2 :: real) powi (- int (Suc k)) = 1 / 2 ^ Suc k"
    by (simp only: power_int_minus_divide power_int_of_nat)
  have p2: "(2 :: real) powi (- int (Suc k) + 1) = 1 / 2 ^ k"
  proof -
    have "- int (Suc k) + 1 = - int k" by simp
    then show ?thesis by (simp only: power_int_minus_divide power_int_of_nat)
  qed
  from lo hi show ?thesis by (simp only: e p1 p2 a_def)
qed


lemma exponent_minus: "exponent (- x) = exponent x"
  by (simp add: exponent_def)

lemma exponent_mono:
  assumes "0 < x" and "x \<le> y"
  shows "exponent x \<le> exponent y"
proof -
  from assms have "2 powi exponent x \<le> \<bar>x\<bar>" "\<bar>y\<bar> < 2 powi (exponent y + 1)"
    using exponent_bounds [of x] exponent_bounds [of y] by simp_all
  with assms have "(2 :: real) powi exponent x < 2 powi (exponent y + 1)" by simp
  then have "exponent x < exponent y + 1"
    by (metis linorder_not_less one_le_numeral power_int_increasing)
  then show ?thesis by simp
qed

lemma f64_minus: "f64 (- x) = - f64 x"
  by (simp add: f64_def exponent_minus round_half_even_minus Let_def)

lemma f64_nonneg:
  assumes "0 \<le> x"
  shows "0 \<le> f64 x"
proof (cases "x = 0")
  case True
  then show ?thesis by (simp add: f64_def)
next
  case False
  define e where "e = max (exponent x) (- 1022) - 52"
  have "0 \<le> x / 2 powi e" using assms by simp
  then have "round_half_even 0 \<le> round_half_even (x / 2 powi e)"
    by (rule round_half_even_mono)
  then have "0 \<le> round_half_even (x / 2 powi e)"
    using round_half_even_of_int [of 0] by simp
  then show ?thesis using False by (simp add: f64_def Let_def e_def)
qed

lemma two_powi_split:
  "(2 :: real) powi (e + 1) = 2 powi (e - 52) * 2 ^ 53"
  "(2 :: real) powi e = 2 powi (e - 52) * 2 ^ 52"
proof -
  have "(2 :: real) powi ((e - 52) + 53) = 2 powi (e - 52) * 2 powi 53"
    by (rule power_int_add) simp
  moreover have "(e - 52) + 53 = e + 1" by simp
  ultimately show "(2 :: real) powi (e + 1) = 2 powi (e - 52) * 2 ^ 53"
    by (simp only: power_int_numeral)
  have "(2 :: real) powi ((e - 52) + 52) = 2 powi (e - 52) * 2 powi 52"
    by (rule power_int_add) simp
  moreover have "(e - 52) + 52 = e" by simp
  ultimately show "(2 :: real) powi e = 2 powi (e - 52) * 2 ^ 52"
    by (simp only: power_int_numeral)
qed

lemma f64_mono_pos:
  assumes "0 < x" and "x \<le> y"
  shows "f64 x \<le> f64 y"
proof -
  define ex where "ex = max (exponent x) (- 1022)"
  define ey where "ey = max (exponent y) (- 1022)"
  have fx: "f64 x = of_int (round_half_even (x / 2 powi (ex - 52))) * 2 powi (ex - 52)"
    and fy: "f64 y = of_int (round_half_even (y / 2 powi (ey - 52))) * 2 powi (ey - 52)"
    using assms by (simp_all add: f64_def Let_def ex_def ey_def)
  have le: "ex \<le> ey"
    using exponent_mono [OF assms] by (simp add: ex_def ey_def)
  show ?thesis
  proof (cases "ex = ey")
    case True
    have "x / 2 powi (ey - 52) \<le> y / 2 powi (ey - 52)"
      using assms(2) by (simp add: divide_right_mono)
    then have "round_half_even (x / 2 powi (ey - 52)) \<le> round_half_even (y / 2 powi (ey - 52))"
      by (rule round_half_even_mono)
    then show ?thesis
      by (simp add: fx fy True mult_right_mono)
  next
    case False
    with le have lt: "ex < ey" by simp
    then have eye: "ey = exponent y" and exy: "ex + 1 \<le> exponent y"
      by (auto simp: ex_def ey_def)
    have xb: "x < 2 powi (ex + 1)"
    proof -
      have "x < 2 powi (exponent x + 1)"
        using exponent_bounds [of x] assms(1) by simp
      also have "(2 :: real) powi (exponent x + 1) \<le> 2 powi (ex + 1)"
        by (rule power_int_increasing) (simp_all add: ex_def)
      finally show ?thesis .
    qed
    have yb: "2 powi ey \<le> y"
      using exponent_bounds [of y] assms by (simp add: eye)
    have sx: "x / 2 powi (ex - 52) \<le> 2 ^ 53"
    proof -
      from xb have "x < 2 powi (ex - 52) * 2 ^ 53"
        by (simp only: two_powi_split(1))
      then show ?thesis by (simp add: field_simps)
    qed
    have sy: "2 ^ 52 \<le> y / 2 powi (ey - 52)"
    proof -
      from yb have "2 powi (ey - 52) * 2 ^ 52 \<le> y"
        by (simp only: two_powi_split(2) [symmetric])
      then show ?thesis by (simp add: field_simps)
    qed
    have "round_half_even (x / 2 powi (ex - 52)) \<le> round_half_even (of_int (2 ^ 53))"
      by (rule round_half_even_mono) (use sx in simp)
    then have rx: "round_half_even (x / 2 powi (ex - 52)) \<le> 2 ^ 53"
      by (simp only: round_half_even_of_int)
    have "round_half_even (of_int (2 ^ 52)) \<le> round_half_even (y / 2 powi (ey - 52))"
      by (rule round_half_even_mono) (use sy in simp)
    then have ry: "2 ^ 52 \<le> round_half_even (y / 2 powi (ey - 52))"
      by (simp only: round_half_even_of_int)
    have "f64 x \<le> 2 ^ 53 * 2 powi (ex - 52)"
    proof -
      from rx have "real_of_int (round_half_even (x / 2 powi (ex - 52))) \<le> 2 ^ 53"
        by (metis of_int_le_iff of_int_numeral of_int_power)
      then show ?thesis by (simp add: fx mult_right_mono)
    qed
    also have "(2 :: real) ^ 53 * 2 powi (ex - 52) = 2 powi (ex + 1)"
      by (simp only: two_powi_split(1) mult.commute)
    also have "(2 :: real) powi (ex + 1) \<le> 2 powi ey"
      by (rule power_int_increasing) (use lt in simp_all)
    also have "(2 :: real) powi ey = 2 ^ 52 * 2 powi (ey - 52)"
      by (subst two_powi_split(2)) (simp only: mult.commute)
    also have "\<dots> \<le> f64 y"
    proof -
      from ry have "2 ^ 52 \<le> real_of_int (round_half_even (y / 2 powi (ey - 52)))"
        by (metis of_int_le_iff of_int_numeral of_int_power)
      then show ?thesis by (simp add: fy mult_right_mono)
    qed
    finally show ?thesis .
  qed
qed

lemma f64_mono: "mono f64"
proof (rule monoI)
  fix x y :: real
  assume le: "x \<le> y"
  consider (pos) "0 < x" | (mid) "x \<le> 0" "0 \<le> y" | (neg) "y < 0"
    using le by linarith
  then show "f64 x \<le> f64 y"
  proof cases
    case pos
    then show ?thesis using le by (rule f64_mono_pos)
  next
    case mid
    from mid(1) have "0 \<le> f64 (- x)" by (intro f64_nonneg) simp
    then have "f64 x \<le> 0" by (simp add: f64_minus)
    moreover from mid(2) have "0 \<le> f64 y" by (rule f64_nonneg)
    ultimately show ?thesis by simp
  next
    case neg
    with le have "0 < - y" "- y \<le> - x" by simp_all
    then have "f64 (- y) \<le> f64 (- x)" by (rule f64_mono_pos)
    then show ?thesis by (simp add: f64_minus)
  qed
qed

section \<open>The stamps\<close>

lemma get_freq_stamp_nth:
  "i < N \<Longrightarrow> get_freq_stamp rd f N ! i = rd (rd (real i / real N) * f)"
  by (simp add: get_freq_stamp_def)

lemma length_get_freq_stamp: "length (get_freq_stamp rd f N) = N"
  by (simp add: get_freq_stamp_def)

lemma get_time_stamp_nth:
  "i < N \<Longrightarrow> get_time_stamp rd f N ! i = np_divide rd (real i) f"
  by (simp add: get_time_stamp_def)

lemma get_freq_stamp_mono:
  assumes "mono rd" and "0 \<le> f" and "i \<le> j" and "j < N"
  shows "get_freq_stamp rd f N ! i \<le> get_freq_stamp rd f N ! j"
proof -
  have "real i / real N \<le> real j / real N"
    using assms(3) by (simp add: divide_right_mono)
  then have "rd (real i / real N) \<le> rd (real j / real N)"
    using assms(1) by (simp add: monoD)
  then have "rd (real i / real N) * f \<le> rd (real j / real N) * f"
    using assms(2) by (simp add: mult_right_mono)
  then have "rd (rd (real i / real N) * f) \<le> rd (rd (real j / real N) * f)"
    using assms(1) by (simp add: monoD)
  then show ?thesis
    using assms(3,4) by (simp add: get_freq_stamp_nth)
qed

text \<open>
  In exact arithmetic the stamps are the ones of the docstrings:
  \<open>f\<^sub>i = i * (f / N)\<close> and \<open>t\<^sub>i = i / f\<close>, with \<open>df = f / N\<close> and \<open>T = 1 / df\<close>.
\<close>

lemma stamps_exact_arithmetic:
  assumes "0 < f" and "i < N"
  shows "get_freq_stamp (\<lambda>x. x) f N ! i = real i * (f / real N)"
    and "get_time_stamp (\<lambda>x. x) f N ! i = Finite (real i / f)"
    and "get_sampling_interval (\<lambda>x. x) f N = Inr (f / real N)"
    and "get_total_time (\<lambda>x. x) (f / real N) = Inr (1 / (f / real N))"
  using assms
  by (simp_all add: get_freq_stamp_nth get_time_stamp_nth np_divide_def
      get_sampling_interval_def get_total_time_def)

lemma get_freq_stamp_binary64_29_30:
  "get_freq_stamp f64 100 100 ! 29 = 8162774324609023 / 2 ^ 48"
  "get_freq_stamp f64 100 100 ! 30 = 30"
  by (simp_all add: get_freq_stamp_def f64_def exponent_def log2_floor.simps
      round_half_even_def Let_def)

lemma get_freq_stamp_binary64_no_29: "29 \<notin> set (get_freq_stamp f64 100 100)"
proof
  let ?fs = "get_freq_stamp f64 100 100"
  assume "29 \<in> set ?fs"
  then obtain i where i: "i < 100" "?fs ! i = 29"
    by (auto simp: in_set_conv_nth length_get_freq_stamp)
  show False
  proof (cases "i \<le> 29")
    case True
    then have "?fs ! i \<le> ?fs ! 29"
      by (intro get_freq_stamp_mono f64_mono) simp_all
    with i(2) show False by (simp add: get_freq_stamp_binary64_29_30)
  next
    case False
    then have "30 \<le> i" by simp
    then have "?fs ! 30 \<le> ?fs ! i"
      using i(1) by (intro get_freq_stamp_mono f64_mono) simp_all
    with i(2) show False by (simp add: get_freq_stamp_binary64_29_30)
  qed
qed

text \<open>
  C7: in binary64 the frequency stamp is not \<open>i * (f / N)\<close>. The source divides the
  index by \<open>N\<close> first and multiplies by \<open>f\<close> afterwards, and each operation rounds. With
  the default configuration \<open>f = 100.0\<close>, \<open>N = 100\<close>, the entry at position 29 is
  \<open>8162774324609023 / 2\<^sup>4\<^sup>8\<close>, which Python prints as 28.999999999999996, whereas
  \<open>29 * (100.0 / 100)\<close> is 29.0. The exact-match lookup then misses the grid frequency
  29.0: constructing the synthesizer with \<^verbatim>\<open>freq_range=(0.0, 29.0)\<close> raises IndexError.
\<close>

theorem get_freq_stamp_binary64_default_grid:
  "get_freq_stamp f64 100 100 ! 29 = 8162774324609023 / 2 ^ 48
   \<and> f64 (29 * f64 (100 / 100)) = 29
   \<and> get_freq_stamp f64 100 100 ! 29 \<noteq> f64 (29 * f64 (100 / 100))
   \<and> ExcitationSignal f64 (0, 29) 100 100 100 (1 / 10) = Inl IndexError"
proof -
  have "get_freq_index (0, 29) (get_freq_stamp f64 100 100) = Inl IndexError"
  proof -
    have "item0 (np_where (get_freq_stamp f64 100 100) 0) = Inr (int 0)"
      by (rule item0_np_where_eq)
        (simp_all add: length_get_freq_stamp get_freq_stamp_nth f64_def)
    moreover have "item0 (np_where (get_freq_stamp f64 100 100) 29) = Inl IndexError"
      using get_freq_stamp_binary64_no_29 by (rule item0_np_where_absent)
    ultimately show ?thesis by (simp add: get_freq_index_def)
  qed
  then have "ExcitationSignal f64 (0, 29) 100 100 100 (1 / 10) = Inl IndexError"
    by (simp add: ExcitationSignal_def initialization_def get_sampling_interval_def
        get_total_time_def f64_def exponent_def log2_floor.simps round_half_even_def Let_def)
  moreover have "f64 (29 * f64 (100 / 100)) = 29"
    by (simp add: f64_def exponent_def log2_floor.simps round_half_even_def Let_def)
  ultimately show ?thesis
    by (simp add: get_freq_stamp_binary64_29_30)
qed

section \<open>Construction\<close>

lemma ExcitationSignal_InrD:
  assumes "ExcitationSignal rd freq_range f N amp eps = Inr s"
  shows "self_N s = N \<and> self_f_stamp s = get_freq_stamp rd f N \<and>
         self_t_stamp s = get_time_stamp rd f N \<and>
         get_sampling_interval rd f N = Inr (self_df s) \<and>
         get_total_time rd (self_df s) = Inr (self_T s) \<and>
         get_freq_index freq_range (get_freq_stamp rd f N) = Inr (self_idx s)"
  using assms
  by (auto simp: ExcitationSignal_def initialization_def Let_def split: sum.splits)

lemma get_freq_stamp_binary64_upto_5:
  "get_freq_stamp f64 100 100 ! 5 = 5"
  "get_freq_stamp f64 100 100 ! 0 \<noteq> 5"
  "get_freq_stamp f64 100 100 ! 1 \<noteq> 5"
  "get_freq_stamp f64 100 100 ! 2 \<noteq> 5"
  "get_freq_stamp f64 100 100 ! 3 \<noteq> 5"
  "get_freq_stamp f64 100 100 ! 4 \<noteq> 5"
  by (simp_all add: get_freq_stamp_def f64_def exponent_def log2_floor.simps
      round_half_even_def Let_def)

lemma get_freq_index_binary64_5_5:
  "get_freq_index (5, 5) (get_freq_stamp f64 100 100) = Inr (5, 5)"
proof -
  let ?fs = "get_freq_stamp f64 100 100"
  have "\<forall>j<5. ?fs ! j \<noteq> 5"
  proof (intro allI impI)
    fix j :: nat assume "j < 5"
    then have "j = 0 \<or> j = 1 \<or> j = 2 \<or> j = 3 \<or> j = 4" by arith
    then show "?fs ! j \<noteq> 5" using get_freq_stamp_binary64_upto_5 by auto
  qed
  then have "item0 (np_where ?fs 5) = Inr (int 5)"
    using get_freq_stamp_binary64_upto_5(1)
    by (intro item0_np_where_eq) (simp_all add: length_get_freq_stamp)
  then show ?thesis by (simp add: get_freq_index_def)
qed

lemma get_freq_index_binary64_0_5:
  "get_freq_index (0, 5) (get_freq_stamp f64 100 100) = Inr (0, 5)"
proof -
  let ?fs = "get_freq_stamp f64 100 100"
  have "item0 (np_where ?fs 0) = Inr (int 0)"
    by (rule item0_np_where_eq)
      (simp_all add: length_get_freq_stamp get_freq_stamp_nth f64_def)
  moreover have "\<forall>j<5. ?fs ! j \<noteq> 5"
  proof (intro allI impI)
    fix j :: nat assume "j < 5"
    then have "j = 0 \<or> j = 1 \<or> j = 2 \<or> j = 3 \<or> j = 4" by arith
    then show "?fs ! j \<noteq> 5" using get_freq_stamp_binary64_upto_5 by auto
  qed
  then have "item0 (np_where ?fs 5) = Inr (int 5)"
    using get_freq_stamp_binary64_upto_5(1)
    by (intro item0_np_where_eq) (simp_all add: length_get_freq_stamp)
  ultimately show ?thesis by (simp add: get_freq_index_def)
qed

text \<open>
  C9, as stated, fails: the constructor validates nothing, so a band of one grid
  frequency, \<^verbatim>\<open>freq_range=(5.0, 5.0)\<close> with the default \<open>f\<close> and \<open>N\<close>, is
  constructed successfully (in binary64 arithmetic) with the index pair \<open>(5, 5)\<close>.
\<close>

theorem construction_single_frequency_band:
  "\<exists>s. ExcitationSignal f64 (5, 5) 100 100 100 (1 / 10) = Inr s
       \<and> self_idx s = (5, 5) \<and> \<not> fst (self_idx s) < snd (self_idx s)"
  using get_freq_index_binary64_5_5
  by (simp add: ExcitationSignal_def initialization_def get_sampling_interval_def
      get_total_time_def f64_def exponent_def log2_floor.simps round_half_even_def Let_def)

text \<open>
  C9, amended: after every successful construction both indices lie within \<open>[0, N)\<close> and
  the stamp holds exactly \<open>f_lo\<close> and \<open>f_hi\<close> there; the order of the indices is the order
  of the endpoints, so that \<open>idx_lo < idx_hi\<close> exactly when \<open>f_lo < f_hi\<close> (for \<open>f > 0\<close> and
  a monotone rounding: exact arithmetic, or binary64).
\<close>

theorem construction_index_range:
  assumes "ExcitationSignal rd (f_lo, f_hi) f N amp eps = Inr s"
  shows "0 \<le> fst (self_idx s) \<and> nat (fst (self_idx s)) < N \<and>
         0 \<le> snd (self_idx s) \<and> nat (snd (self_idx s)) < N \<and>
         self_f_stamp s ! nat (fst (self_idx s)) = f_lo \<and>
         self_f_stamp s ! nat (snd (self_idx s)) = f_hi \<and>
         (mono rd \<and> 0 < f \<longrightarrow> (fst (self_idx s) < snd (self_idx s) \<longleftrightarrow> f_lo < f_hi))"
proof -
  obtain i j where ij: "self_idx s = (i, j)" by (cases "self_idx s")
  let ?fs = "get_freq_stamp rd f N"
  from ExcitationSignal_InrD [OF assms] ij
  have fs: "self_f_stamp s = ?fs" and g: "get_freq_index (f_lo, f_hi) ?fs = Inr (i, j)"
    by simp_all
  from g have a: "item0 (np_where ?fs f_lo) = Inr i" and b: "item0 (np_where ?fs f_hi) = Inr j"
    by (auto simp: get_freq_index_def split: sum.splits)
  from item0_np_where_sound [OF a] item0_np_where_sound [OF b]
  have i: "0 \<le> i" "nat i < N" "?fs ! nat i = f_lo"
    and j: "0 \<le> j" "nat j < N" "?fs ! nat j = f_hi"
    by (simp_all add: length_get_freq_stamp)
  have ord: "i < j \<longleftrightarrow> f_lo < f_hi" if m: "mono rd" and f: "0 < f"
  proof
    assume "i < j"
    then have le: "nat i \<le> nat j" and ne: "nat i < nat j" using i(1) by simp_all
    from f have f0: "0 \<le> f" by simp
    from get_freq_stamp_mono [OF m f0 le j(2)] i(3) j(3) have "f_lo \<le> f_hi" by simp
    moreover have "f_lo \<noteq> f_hi"
      using item0_np_where_first [OF b ne] i(3) by simp
    ultimately show "f_lo < f_hi" by simp
  next
    assume lt: "f_lo < f_hi"
    show "i < j"
    proof (rule ccontr)
      assume "\<not> i < j"
      then have "nat j \<le> nat i" by simp
      moreover from f have "0 \<le> f" by simp
      ultimately have "get_freq_stamp rd f N ! nat j \<le> get_freq_stamp rd f N ! nat i"
        using m i(2) by (intro get_freq_stamp_mono)
      with i(3) j(3) have "f_hi \<le> f_lo" by simp
      with lt show False by simp
    qed
  qed
  from i j ord fs ij show ?thesis by simp
qed

theorem construction_index_range_witness:
  "\<exists>s. ExcitationSignal f64 (0, 5) 100 100 100 (1 / 10) = Inr s
       \<and> self_idx s = (0, 5) \<and> mono f64 \<and> (0 :: real) < 100
       \<and> self_f_stamp s ! nat 0 = 0 \<and> self_f_stamp s ! nat 5 = 5
       \<and> nat 5 < (100 :: nat) \<and> ((0 :: int) < 5 \<longleftrightarrow> (0 :: real) < 5)"
proof -
  obtain s where s: "ExcitationSignal f64 (0, 5) 100 100 100 (1 / 10) = Inr s"
    and idx: "self_idx s = (0, 5)"
    using get_freq_index_binary64_0_5
    by (simp add: ExcitationSignal_def initialization_def get_sampling_interval_def
        get_total_time_def f64_def exponent_def log2_floor.simps round_half_even_def Let_def)
  from construction_index_range [OF s] idx f64_mono
  have "self_f_stamp s ! nat 0 = 0 \<and> self_f_stamp s ! nat 5 = 5 \<and> nat 5 < (100 :: nat)
        \<and> ((0 :: int) < 5 \<longleftrightarrow> (0 :: real) < 5)"
    by simp
  with s idx f64_mono show ?thesis by auto
qed

section \<open>Single-signal synthesis\<close>

subsection \<open>The amplitude array\<close>

lemma foldl_update_upto:
  assumes "0 \<le> lo" and "hi < int (length xs)"
  shows "length (foldl (\<lambda>a j. a[nat (j mod int (length xs)) := amp]) xs [lo..hi]) = length xs \<and>
         (\<forall>i<length xs. foldl (\<lambda>a j. a[nat (j mod int (length xs)) := amp]) xs [lo..hi] ! i =
            (if lo \<le> int i \<and> int i \<le> hi then amp else xs ! i))"
  using assms
proof (induction lo hi arbitrary: xs rule: upto.induct)
  case (1 lo hi)
  show ?case
  proof (cases "lo \<le> hi")
    case False
    then show ?thesis by (auto simp: upto.simps)
  next
    case True
    let ?n = "length xs"
    let ?ys = "xs[nat (lo mod int ?n) := amp]"
    have lo: "lo mod int ?n = lo" using True "1.prems" by simp
    have len: "length ?ys = ?n" by simp
    have IH: "length (foldl (\<lambda>a j. a[nat (j mod int (length ?ys)) := amp]) ?ys [lo + 1..hi]) = length ?ys \<and>
         (\<forall>i<length ?ys. foldl (\<lambda>a j. a[nat (j mod int (length ?ys)) := amp]) ?ys [lo + 1..hi] ! i =
            (if lo + 1 \<le> int i \<and> int i \<le> hi then amp else ?ys ! i))"
      using "1.IH" [OF True, of ?ys] "1.prems" by simp
    have unf: "foldl (\<lambda>a j. a[nat (j mod int ?n) := amp]) xs [lo..hi] =
               foldl (\<lambda>a j. a[nat (j mod int ?n) := amp]) ?ys [lo + 1..hi]"
      using True by (simp add: upto.simps [of lo hi])
    show ?thesis
    proof (intro conjI allI impI)
      show "length (foldl (\<lambda>a j. a[nat (j mod int ?n) := amp]) xs [lo..hi]) = ?n"
        using IH unf by simp
    next
      fix i assume i: "i < ?n"
      have "foldl (\<lambda>a j. a[nat (j mod int ?n) := amp]) xs [lo..hi] ! i =
            (if lo + 1 \<le> int i \<and> int i \<le> hi then amp else ?ys ! i)"
        using IH unf i by simp
      also have "\<dots> = (if lo \<le> int i \<and> int i \<le> hi then amp else xs ! i)"
      proof -
        have nn: "0 \<le> lo" using "1.prems" by simp
        have "?ys ! i = (if int i = lo then amp else xs ! i)"
          using i nn by (auto simp: lo nth_list_update)
        then show ?thesis using True by auto
      qed
      finally show "foldl (\<lambda>a j. a[nat (j mod int ?n) := amp]) xs [lo..hi] ! i =
            (if lo \<le> int i \<and> int i \<le> hi then amp else xs ! i)" .
    qed
  qed
qed

lemma get_frequency_amplitude_in_range:
  assumes "0 \<le> idx_lo" and "idx_lo \<le> idx_hi" and "idx_hi < int N"
  shows "get_frequency_amplitude N amp (idx_lo, idx_hi) =
           Inr ((foldl (\<lambda>a j. a[nat (j mod int N) := amp]) (replicate N 0) [idx_lo..idx_hi])[0 := 0])"
proof -
  have "\<not> (\<exists>j \<in> set [idx_lo..idx_hi]. j < - int N \<or> int N \<le> j)"
    using assms by auto
  moreover have "N \<noteq> 0" using assms by auto
  ultimately show ?thesis
    by (simp add: get_frequency_amplitude_def Let_def)
qed

text \<open>
  C6: for \<open>0 \<le> idx_lo \<le> idx_hi < N\<close> the amplitude array is returned, has length \<open>N\<close>,
  is \<open>0\<close> at position \<open>0\<close>, \<open>amp\<close> at every other position of the inclusive range
  \<open>[idx_lo, idx_hi]\<close> and \<open>0\<close> elsewhere. It is a function of \<open>(N, amp, idx)\<close> alone: every
  synthesis attempt, whatever the state of the generator, yields this same array.
\<close>

theorem frequency_amplitude_band:
  assumes "0 \<le> idx_lo" and "idx_lo \<le> idx_hi" and "idx_hi < int N"
  shows "\<exists>U_amp. get_frequency_amplitude N amp (idx_lo, idx_hi) = Inr U_amp
           \<and> length U_amp = N \<and> U_amp ! 0 = 0
           \<and> (\<forall>i<N. U_amp ! i = (if i \<noteq> 0 \<and> idx_lo \<le> int i \<and> int i \<le> idx_hi then amp else 0))
           \<and> (\<forall>g k. \<exists>U U_phase k'.
                 get_frequency_signal np g k N amp (idx_lo, idx_hi) = Inr ((U, U_amp, U_phase), k'))"
proof -
  let ?F = "foldl (\<lambda>a j. a[nat (j mod int N) := amp]) (replicate N 0) [idx_lo..idx_hi]"
  let ?U = "?F[0 := 0]"
  have r: "get_frequency_amplitude N amp (idx_lo, idx_hi) = Inr ?U"
    by (rule get_frequency_amplitude_in_range [OF assms])
  have N: "0 < N" using assms by auto
  from foldl_update_upto [of idx_lo idx_hi "replicate N 0" amp] assms
  have len: "length ?F = N"
    and nth: "\<forall>i<N. ?F ! i = (if idx_lo \<le> int i \<and> int i \<le> idx_hi then amp else 0)"
    by simp_all
  have "length ?U = N" using len by simp
  moreover have "?U ! 0 = 0" using len N by simp
  moreover have "\<forall>i<N. ?U ! i = (if i \<noteq> 0 \<and> idx_lo \<le> int i \<and> int i \<le> idx_hi then amp else 0)"
    using nth len by (auto simp: nth_list_update)
  moreover have "\<forall>g k. \<exists>U U_phase k'.
      get_frequency_signal np g k N amp (idx_lo, idx_hi) = Inr ((U, ?U, U_phase), k')"
    using r by (simp add: get_frequency_signal_def get_random_phase_def Let_def)
  ultimately show ?thesis using r by blast
qed

theorem frequency_amplitude_band_witness:
  "(0 :: int) \<le> 0 \<and> (0 :: int) \<le> 2 \<and> (2 :: int) < int 4
   \<and> get_frequency_amplitude 4 7 (0, 2) = Inr [0, 7, 7, 0]
   \<and> length [0, 7, 7, 0 :: real] = 4 \<and> [0, 7, 7, 0 :: real] ! 0 = 0
   \<and> [0, 7, 7, 0 :: real] ! 1 = 7 \<and> [0, 7, 7, 0 :: real] ! 3 = 0"
proof -
  have e: "get_frequency_amplitude 4 7 (0, 2) = Inr [0, 7, 7, 0]"
    by (simp add: get_frequency_amplitude_def upto.simps Let_def eval_nat_numeral)
  from frequency_amplitude_band [of 0 2 4 7] e
  have "\<forall>i<4. [0, 7, 7, 0 :: real] ! i = (if i \<noteq> 0 \<and> (0 :: int) \<le> int i \<and> int i \<le> 2 then 7 else 0)"
    by simp
  then have "[0, 7, 7, 0 :: real] ! 1 = 7 \<and> [0, 7, 7, 0 :: real] ! 3 = 0"
    by simp
  with e show ?thesis by simp
qed

subsection \<open>Normalization\<close>

lemma np_max_Max: "xs \<noteq> [] \<Longrightarrow> np_max xs = Inr (Max (set xs))"
  by (cases xs) (simp_all add: np_max_def Max.set_eq_fold [symmetric])

lemma np_max_nil: "np_max [] = Inl ValueError"
  by (simp add: np_max_def)

lemma get_normalization_nonzero:
  assumes nz: "\<exists>x \<in> set u. x \<noteq> 0"
  shows "\<exists>mx. 0 < mx \<and> np_max (map abs u) = Inr mx
           \<and> get_normalization np u = Inr (map (\<lambda>x. Finite (np_fl np (x / mx))) u)
           \<and> Max ((\<lambda>x. \<bar>x / mx\<bar>) ` set u) = 1
           \<and> (mono (np_fl np) \<and> np_fl np 1 = 1 \<and> np_fl np (- 1) = - 1 \<longrightarrow>
                Max ((\<lambda>x. \<bar>np_fl np (x / mx)\<bar>) ` set u) = 1)"
proof -
  from nz have ne: "u \<noteq> []" by auto
  let ?mx = "Max (set (map abs u))"
  have mx: "np_max (map abs u) = Inr ?mx"
    using ne by (intro np_max_Max) simp
  have fin: "finite (set (map abs u))" by simp
  from nz obtain x where x: "x \<in> set u" "x \<noteq> 0" by blast
  then have "\<bar>x\<bar> \<in> set (map abs u)" by simp
  then have "\<bar>x\<bar> \<le> ?mx" using fin by (intro Max_ge)
  with x(2) have pos: "0 < ?mx" by simp
  have norm: "get_normalization np u = Inr (map (\<lambda>x. Finite (np_fl np (x / ?mx))) u)"
    using mx pos by (simp add: get_normalization_def np_divide_def)
  have "?mx \<in> set (map abs u)"
    using ne by (intro Max_in) simp_all
  then obtain y where y: "y \<in> set u" "\<bar>y\<bar> = ?mx" by auto
  have le: "\<bar>w / ?mx\<bar> \<le> 1" if "w \<in> set u" for w
  proof -
    from that have "\<bar>w\<bar> \<in> set (map abs u)" by simp
    then have "\<bar>w\<bar> \<le> ?mx" using fin by (intro Max_ge)
    then show ?thesis using pos by simp
  qed
  have peak: "\<bar>y / ?mx\<bar> = 1" using y(2) pos by simp
  have exact: "Max ((\<lambda>x. \<bar>x / ?mx\<bar>) ` set u) = 1"
  proof (rule Max_eqI)
    show "finite ((\<lambda>x. \<bar>x / ?mx\<bar>) ` set u)" by simp
  next
    fix z assume "z \<in> (\<lambda>x. \<bar>x / ?mx\<bar>) ` set u"
    then show "z \<le> 1" using le by auto
  next
    show "1 \<in> (\<lambda>x. \<bar>x / ?mx\<bar>) ` set u" using peak y(1) by force
  qed
  have rounded: "Max ((\<lambda>x. \<bar>np_fl np (x / ?mx)\<bar>) ` set u) = 1"
    if fl: "mono (np_fl np)" "np_fl np 1 = 1" "np_fl np (- 1) = - 1"
  proof (rule Max_eqI)
    show "finite ((\<lambda>x. \<bar>np_fl np (x / ?mx)\<bar>) ` set u)" by simp
  next
    fix z assume "z \<in> (\<lambda>x. \<bar>np_fl np (x / ?mx)\<bar>) ` set u"
    then obtain w where w: "w \<in> set u" "z = \<bar>np_fl np (w / ?mx)\<bar>" by auto
    from le [OF w(1)] have "- 1 \<le> w / ?mx" "w / ?mx \<le> 1" by linarith+
    then have "np_fl np (- 1) \<le> np_fl np (w / ?mx)" "np_fl np (w / ?mx) \<le> np_fl np 1"
      using fl(1) by (auto dest: monoD)
    then show "z \<le> 1" using w(2) fl(2,3) by simp
  next
    from peak have "y / ?mx = 1 \<or> y / ?mx = - 1" by linarith
    then have "\<bar>np_fl np (y / ?mx)\<bar> = 1" using fl(2,3) by auto
    then show "1 \<in> (\<lambda>x. \<bar>np_fl np (x / ?mx)\<bar>) ` set u" using y(1) by force
  qed
  from pos mx norm exact rounded show ?thesis by blast
qed

lemma get_normalization_zero:
  assumes z: "\<forall>x \<in> set u. x = 0"
  shows "if u = [] then get_normalization np u = Inl ValueError
         else get_normalization np u = Inr (replicate (length u) NaN)"
proof (cases "u = []")
  case True
  then show ?thesis by (simp add: get_normalization_def np_max_def)
next
  case False
  then have "set (map abs u) = {0}" using z by (cases u) auto
  then have mx: "np_max (map abs u) = Inr 0"
    using False np_max_Max [of "map abs u"] by simp
  have "map (\<lambda>x. np_divide (np_fl np) x 0) u = replicate (length u) NaN"
    using z by (induction u) (simp_all add: np_divide_def)
  with mx False show ?thesis by (simp add: get_normalization_def)
qed

lemma f64_one: "f64 1 = 1" "f64 (- 1) = - 1"
proof -
  show "f64 1 = 1"
    by (simp add: f64_def exponent_def log2_floor.simps round_half_even_def Let_def)
  then show "f64 (- 1) = - 1"
    by (simp add: f64_minus)
qed

lemma f64_three_quarters: "f64 (3 / 4) = 3 / 4"
  by (simp add: f64_def exponent_def log2_floor.simps round_half_even_def Let_def)

text \<open>
  C5: for an array \<open>u\<close> that is not identically zero, \<^verbatim>\<open>_get_normalization\<close> returns
  \<open>u / max \<bar>u\<bar>\<close>, all entries finite, and the largest absolute value of the result is \<open>1\<close>:
  of the exact quotients, and of the rounded ones as well when the rounding is monotone and
  keeps \<open>1\<close> and \<open>- 1\<close>, as the exact operations and binary64 do (\<open>f64_mono\<close>, \<open>f64_one\<close>).
  For an identically zero array it returns no finite signal: every entry is \<open>NaN\<close> (the
  quotient \<open>0 / 0\<close>), and on the empty array \<^verbatim>\<open>np.max\<close> raises ValueError.
\<close>

theorem normalization_peak:
  "((\<exists>x \<in> set u. x \<noteq> 0) \<longrightarrow>
      (\<exists>mx. 0 < mx \<and> np_max (map abs u) = Inr mx
         \<and> get_normalization np u = Inr (map (\<lambda>x. Finite (np_fl np (x / mx))) u)
         \<and> Max ((\<lambda>x. \<bar>x / mx\<bar>) ` set u) = 1
         \<and> (mono (np_fl np) \<and> np_fl np 1 = 1 \<and> np_fl np (- 1) = - 1 \<longrightarrow>
              Max ((\<lambda>x. \<bar>np_fl np (x / mx)\<bar>) ` set u) = 1)))
   \<and> ((\<forall>x \<in> set u. x = 0) \<longrightarrow>
      (if u = [] then get_normalization np u = Inl ValueError
       else get_normalization np u = Inr (replicate (length u) NaN)))"
  using get_normalization_nonzero [of u np] get_normalization_zero [of u np] by blast

theorem normalization_peak_witness:
  "(3 :: real) \<in> set [3, - 4] \<and> (3 :: real) \<noteq> 0
   \<and> get_normalization exact_numpy [3, - 4] = Inr [Finite (3 / 4), Finite (- 1)]
   \<and> mono (np_fl exact_numpy) \<and> np_fl exact_numpy 1 = 1 \<and> np_fl exact_numpy (- 1) = - 1
   \<and> Max ((\<lambda>x. \<bar>np_fl exact_numpy (x / 4)\<bar>) ` set [3, - 4]) = 1
   \<and> mono f64 \<and> f64 1 = 1 \<and> f64 (- 1) = - 1
   \<and> get_normalization (exact_numpy\<lparr>np_fl := f64\<rparr>) [3, - 4]
        = Inr [Finite (3 / 4), Finite (- 1)]
   \<and> Max ((\<lambda>x. \<bar>f64 (x / 4)\<bar>) ` set [3, - 4]) = 1
   \<and> (0 :: real) \<in> set [0, 0]
   \<and> get_normalization exact_numpy [0, 0] = Inr [NaN, NaN]"
proof -
  have a: "np_max (map abs [3, - 4]) = Inr 4"
    by (simp add: np_max_def)
  have fl: "mono (np_fl exact_numpy)" "np_fl exact_numpy 1 = 1" "np_fl exact_numpy (- 1) = - 1"
    by (simp_all add: exact_numpy_def mono_def)
  have nz: "\<exists>x \<in> set [3, - 4 :: real]. x \<noteq> 0" by simp
  from normalization_peak [of "[3, - 4]" exact_numpy] a fl nz
  have b: "get_normalization exact_numpy [3, - 4] = Inr [Finite (3 / 4), Finite (- 1)]
           \<and> Max ((\<lambda>x. \<bar>np_fl exact_numpy (x / 4)\<bar>) ` set [3, - 4]) = 1"
    by (auto simp add: exact_numpy_def)
  from normalization_peak [of "[3, - 4]" "exact_numpy\<lparr>np_fl := f64\<rparr>"] a nz f64_mono f64_one
  have b64: "get_normalization (exact_numpy\<lparr>np_fl := f64\<rparr>) [3, - 4]
               = Inr [Finite (3 / 4), Finite (- 1)]
           \<and> Max ((\<lambda>x. \<bar>f64 (x / 4)\<bar>) ` set [3, - 4]) = 1"
    by (auto simp add: f64_three_quarters)
  have "\<forall>x \<in> set [0, 0 :: real]. x = 0" by simp
  with normalization_peak [of "[0, 0]" exact_numpy]
  have c: "get_normalization exact_numpy [0, 0] = Inr [NaN, NaN]"
    by (simp add: numeral_2_eq_2)
  from b b64 c fl f64_mono f64_one show ?thesis by simp
qed

section \<open>Repetition\<close>

lemma length_concat_replicate: "length (concat (replicate p row)) = p * length row"
  by (induction p) simp_all

lemma take_drop_concat_replicate:
  "k < p \<Longrightarrow> take (length row) (drop (k * length row) (concat (replicate p row))) = row"
proof (induction p arbitrary: k)
  case 0
  then show ?case by simp
next
  case (Suc p)
  show ?case
  proof (cases k)
    case 0
    then show ?thesis by simp
  next
    case (Suc k')
    with Suc.prems have "k' < p" by simp
    from Suc.IH [OF this] Suc show ?thesis by simp
  qed
qed

lemma length_concat_blocks:
  "\<forall>b \<in> set bs. length b = B \<Longrightarrow> length (concat bs) = length bs * B"
  by (induction bs) simp_all

lemma drop_concat_blocks:
  "\<forall>b \<in> set bs. length b = B \<Longrightarrow> j \<le> length bs \<Longrightarrow>
     drop (j * B) (concat bs) = concat (drop j bs)"
proof (induction bs arbitrary: j)
  case Nil
  then show ?case by simp
next
  case (Cons b bs)
  show ?case
  proof (cases j)
    case 0
    then show ?thesis by simp
  next
    case (Suc j')
    with Cons.prems have "j' \<le> length bs" by simp
    moreover from Cons.prems have "\<forall>b \<in> set bs. length b = B" by simp
    ultimately have "drop (j' * B) (concat bs) = concat (drop j' bs)"
      by (intro Cons.IH)
    with Cons.prems Suc show ?thesis by simp
  qed
qed

lemma block_of_concat:
  assumes "\<forall>b \<in> set bs. length b = B" and "j < length bs" and "off + n \<le> B"
  shows "take n (drop (j * B + off) (concat bs)) = take n (drop off (bs ! j))"
proof -
  have "drop (j * B + off) (concat bs) = drop off (drop (j * B) (concat bs))"
    by (simp add: add.commute)
  also have "\<dots> = drop off (concat (drop j bs))"
    using assms by (simp add: drop_concat_blocks)
  also have "drop j bs = bs ! j # drop (Suc j) bs"
    using assms(2) by (simp add: Cons_nth_drop_Suc)
  finally have "drop (j * B + off) (concat bs) = drop off (bs ! j) @ drop (off - length (bs ! j)) (concat (drop (Suc j) bs))"
    by simp
  moreover have "length (bs ! j) = B" using assms(1,2) by simp
  ultimately show ?thesis using assms(3) by simp
qed

text \<open>
  C3: for an array \<open>u\<close> of shape \<open>(nr_inputs, m, N)\<close> and every \<open>p\<close>, the rows returned by
  \<^verbatim>\<open>get_repeat_signals\<close> have length \<open>m * p * N\<close>, and the slice
  \<open>[j * p * N + k * N, j * p * N + (k + 1) * N)\<close> of the row of a channel is \<open>u[channel, j, :]\<close>
  for every trial \<open>j < m\<close> and every repeat \<open>k < p\<close>. An array without any channel is
  refused by \<^verbatim>\<open>reshape\<close>.
\<close>

theorem repeat_signals_blocks:
  assumes "has_shape u nr_inputs m N"
  shows "\<exists>us. get_repeat_signals u p = (if nr_inputs = 0 then Inl ValueError else Inr us)
           \<and> length us = nr_inputs
           \<and> (\<forall>c<nr_inputs. length (us ! c) = m * p * N
                \<and> (\<forall>j<m. \<forall>k<p. take N (drop (j * p * N + k * N) (us ! c)) = u ! c ! j))"
proof -
  let ?tile = "\<lambda>row :: 'a list. concat (replicate p row)"
  let ?us = "map concat (map (map ?tile) u)"
  from assms have len: "length u = nr_inputs"
    and rows: "\<And>c. c < nr_inputs \<Longrightarrow> length (u ! c) = m"
    by (auto simp: has_shape_def)
  have row: "length (u ! c ! j) = N" if "c < nr_inputs" and "j < m" for c j
  proof -
    from that len have "u ! c \<in> set u" by simp
    moreover from that rows have "u ! c ! j \<in> set (u ! c)" by simp
    ultimately show ?thesis using assms by (auto simp: has_shape_def)
  qed
  have r: "get_repeat_signals u p = (if nr_inputs = 0 then Inl ValueError else Inr ?us)"
    using len by (auto simp: get_repeat_signals_def Let_def)
  have "length (?us ! c) = m * p * N
        \<and> (\<forall>j<m. \<forall>k<p. take N (drop (j * p * N + k * N) (?us ! c)) = u ! c ! j)"
    if c: "c < nr_inputs" for c
  proof -
    let ?bs = "map ?tile (u ! c)"
    have usc: "?us ! c = concat ?bs" using c len by simp
    have blocks: "\<forall>b \<in> set ?bs. length b = p * N"
    proof
      fix b assume "b \<in> set ?bs"
      then obtain j where "j < m" "b = ?tile (u ! c ! j)"
        using rows [OF c] by (auto simp: in_set_conv_nth)
      then show "length b = p * N"
        using row [OF c] by (simp add: length_concat_replicate)
    qed
    have lbs: "length ?bs = m" using rows [OF c] by simp
    have "length (?us ! c) = m * p * N"
      using length_concat_blocks [OF blocks] lbs usc by simp
    moreover have "take N (drop (j * p * N + k * N) (?us ! c)) = u ! c ! j"
      if j: "j < m" and k: "k < p" for j k
    proof -
      have "k * N + N \<le> p * N"
      proof -
        from k have "Suc k \<le> p" by simp
        then have "Suc k * N \<le> p * N" by (rule mult_le_mono1)
        then show ?thesis by simp
      qed
      with block_of_concat [OF blocks, of j "k * N" N] j lbs
      have "take N (drop (j * (p * N) + k * N) (concat ?bs)) = take N (drop (k * N) (?bs ! j))"
        by simp
      also have "?bs ! j = ?tile (u ! c ! j)" using j rows [OF c] by simp
      also have "take N (drop (k * N) (?tile (u ! c ! j))) = u ! c ! j"
        using take_drop_concat_replicate [OF k, of "u ! c ! j"] row [OF c j] by simp
      finally show ?thesis using usc by (simp add: mult.assoc)
    qed
    ultimately show ?thesis by blast
  qed
  moreover have "length ?us = nr_inputs" using len by simp
  ultimately show ?thesis using r by blast
qed

theorem repeat_signals_blocks_witness:
  "has_shape [[[1, 2], [3, 4 :: int]]] 1 2 2
   \<and> get_repeat_signals [[[1, 2], [3, 4 :: int]]] 2 = Inr [[1, 2, 1, 2, 3, 4, 3, 4]]
   \<and> take 2 (drop (1 * 2 * 2 + 1 * 2) [1, 2, 1, 2, 3, 4, 3, 4 :: int]) = [3, 4]"
proof -
  have s: "has_shape [[[1, 2], [3, 4 :: int]]] 1 2 2"
    by (simp add: has_shape_def)
  have e: "get_repeat_signals [[[1, 2], [3, 4 :: int]]] 2 = Inr [[1, 2, 1, 2, 3, 4, 3, 4]]"
    by (simp add: get_repeat_signals_def numeral_2_eq_2)
  from repeat_signals_blocks [OF s, of 2] e
  have "\<forall>j<2. \<forall>k<2. take 2 (drop (j * 2 * 2 + k * 2) [1, 2, 1, 2, 3, 4, 3, 4 :: int])
          = [[[1, 2], [3, 4 :: int]]] ! 0 ! j"
    by simp
  then have "take 2 (drop (1 * 2 * 2 + 1 * 2) [1, 2, 1, 2, 3, 4, 3, 4 :: int])
          = [[[1, 2], [3, 4 :: int]]] ! 0 ! 1"
    by simp
  with s e show ?thesis by simp
qed

section \<open>Loops\<close>

lemma for_loop_append:
  "for_loop body (xs @ ys) s =
     (case for_loop body xs s of
        None \<Rightarrow> None
      | Some (Inl e) \<Rightarrow> Some (Inl e)
      | Some (Inr s') \<Rightarrow> for_loop body ys s')"
  by (induction xs arbitrary: s) (auto split: option.splits sum.splits)

lemma for_loop_upt_total:
  assumes "I 0 s"
    and "\<And>i s. i < n \<Longrightarrow> I i s \<Longrightarrow> \<exists>s'. body i s = Some (Inr s') \<and> I (Suc i) s'"
  shows "\<exists>s'. for_loop body [0..<n] s = Some (Inr s') \<and> I n s'"
  using assms(2)
proof (induction n)
  case 0
  with assms(1) show ?case by simp
next
  case (Suc n)
  have "\<exists>s'. for_loop body [0..<n] s = Some (Inr s') \<and> I n s'"
    by (rule Suc.IH) (simp add: Suc.prems)
  then obtain s1 where s1: "for_loop body [0..<n] s = Some (Inr s1)" "I n s1" by blast
  from Suc.prems [of n s1] s1(2) obtain s2 where s2: "body n s1 = Some (Inr s2)" "I (Suc n) s2"
    by auto
  from s1(1) s2 show ?case by (simp add: for_loop_append)
qed

lemma for_loop_upt_partial:
  assumes "for_loop body [0..<n] s = Some (Inr s')"
    and "I 0 s"
    and "\<And>i s s'. i < n \<Longrightarrow> I i s \<Longrightarrow> body i s = Some (Inr s') \<Longrightarrow> I (Suc i) s'"
  shows "I n s'"
  using assms(1,3)
proof (induction n arbitrary: s')
  case 0
  with assms(2) show ?case by simp
next
  case (Suc n)
  from Suc.prems(1) obtain s1 where s1: "for_loop body [0..<n] s = Some (Inr s1)"
    and b: "body n s1 = Some (Inr s')"
    by (auto simp: for_loop_append split: option.splits sum.splits)
  have "I n s1"
    by (rule Suc.IH [OF s1]) (simp add: Suc.prems(2))
  with Suc.prems(2) [of n s1 s'] b show ?case by simp
qed

section \<open>The time-domain realization\<close>

lemma length_foldl_update:
  "length (foldl (\<lambda>a j. a[f j := v]) xs js) = length xs"
  by (induction js arbitrary: xs) simp_all

lemma get_frequency_amplitude_length:
  "get_frequency_amplitude N amp idx = Inr U_amp \<Longrightarrow> length U_amp = N \<and> 0 < N"
  by (auto simp: get_frequency_amplitude_def Let_def length_foldl_update split: if_splits)

lemma get_normalization_total:
  "u \<noteq> [] \<Longrightarrow> \<exists>r. get_normalization np u = Inr r \<and> length r = length u"
  by (cases u) (simp_all add: get_normalization_def np_max_def)

lemma get_normalization_length:
  "get_normalization np u = Inr r \<Longrightarrow> length r = length u"
  by (auto simp: get_normalization_def split: sum.splits)

lemma get_time_signal_length:
  "get_time_signal np U = Inr x \<Longrightarrow> length x = length U"
  by (auto simp: get_time_signal_def ifft_def split: if_splits)

lemma get_time_signal_total:
  "U \<noteq> [] \<Longrightarrow> \<exists>x. get_time_signal np U = Inr x \<and> length x = length U"
  by (simp add: get_time_signal_def ifft_def)

lemma length_get_complex_signal:
  "length (get_complex_signal np U_amp U_phase) = min (length U_amp) (length U_phase)"
  by (simp add: get_complex_signal_def)

lemma normalized_time_signal_length:
  assumes "normalized_time_signal np U = Inr r"
  shows "length r = length U"
proof -
  from assms obtain x where "get_time_signal np U = Inr x" and "get_normalization np x = Inr r"
    by (auto simp: normalized_time_signal_def split: sum.splits)
  then show ?thesis
    using get_time_signal_length get_normalization_length by fastforce
qed

lemma normalized_time_signal_total:
  assumes "length U_amp = N" and "length U_phase = N" and "0 < N"
  shows "\<exists>r. normalized_time_signal np (get_complex_signal np U_amp U_phase) = Inr r \<and> length r = N"
proof -
  let ?U = "get_complex_signal np U_amp U_phase"
  have len: "length ?U = N" using assms by (simp add: length_get_complex_signal)
  with assms(3) have "?U \<noteq> []" by auto
  from get_time_signal_total [OF this] obtain x where x: "get_time_signal np ?U = Inr x" "length x = N"
    using len by auto
  with assms(3) have "x \<noteq> []" by auto
  from get_normalization_total [OF this] x show ?thesis
    by (auto simp: normalized_time_signal_def)
qed

text \<open>
  The time signal of an amplitude and phase pair, as a real sum:
  \<open>u\<^sub>n = (1 / N) \<Sum>\<^sub>k U_amp\<^sub>k cos (U_phase\<^sub>k + 2\<pi> k n / N)\<close>.
\<close>

lemma Re_sum_list: "Re (sum_list zs) = sum_list (map Re zs)"
  by (induction zs) simp_all

lemma Re_amp_exp: "Re (of_real a * exp (\<i> * of_real ph) * exp (\<i> * of_real q)) = a * cos (ph + q)"
proof -
  have "of_real a * exp (\<i> * of_real ph) * exp (\<i> * of_real q) = of_real a * (cis ph * cis q)"
    by (simp only: cis_conv_exp mult.assoc)
  also have "\<dots> = of_real a * cis (ph + q)"
    by (simp only: cis_mult)
  finally have "Re (of_real a * exp (\<i> * of_real ph) * exp (\<i> * of_real q)) = Re (of_real a * cis (ph + q))"
    by (rule arg_cong)
  then show ?thesis by simp
qed

lemma exact_complex_signal:
  "Complex (a * Re (exp (Complex 0 ph))) (a * Im (exp (Complex 0 ph)))
     = of_real a * exp (\<i> * of_real ph)"
proof -
  have eq: "Complex 0 ph = \<i> * of_real ph" by (simp add: complex_eq_iff)
  show ?thesis unfolding eq by (simp add: complex_eq_iff)
qed

lemma get_complex_signal_exact:
  "get_complex_signal exact_numpy U_amp U_phase
     = map2 (\<lambda>a ph. of_real a * exp (\<i> * of_real ph)) U_amp U_phase"
  by (simp add: get_complex_signal_def exact_numpy_def exact_complex_signal)

lemma Re_idft_cos:
  assumes "length U_amp = N" and "length U_phase = N"
  shows "Re (idft (map2 (\<lambda>a ph. of_real a * exp (\<i> * of_real ph)) U_amp U_phase) n)
     = (\<Sum>k\<leftarrow>[0..<N]. U_amp ! k * cos (U_phase ! k + 2 * pi * real k * real n / real N)) / real N"
proof -
  let ?U = "map2 (\<lambda>a ph. of_real a * exp (\<i> * of_real ph)) U_amp U_phase :: complex list"
  have len: "length ?U = N" using assms by simp
  have nth: "?U ! k = of_real (U_amp ! k) * exp (\<i> * of_real (U_phase ! k))" if "k < N" for k
    using that assms by simp
  have "map (\<lambda>k. Re (?U ! k * exp (\<i> * of_real (2 * pi * real k * real n / real N)))) [0..<N]
      = map (\<lambda>k. U_amp ! k * cos (U_phase ! k + 2 * pi * real k * real n / real N)) [0..<N]"
  proof (rule map_cong [OF refl])
    fix k assume "k \<in> set [0..<N]"
    then have "k < N" by simp
    then show "Re (?U ! k * exp (\<i> * of_real (2 * pi * real k * real n / real N)))
        = U_amp ! k * cos (U_phase ! k + 2 * pi * real k * real n / real N)"
      by (simp only: nth Re_amp_exp)
  qed
  then show ?thesis
    by (simp only: idft_def len Re_divide_of_nat Re_sum_list map_map o_def)
qed

lemma get_time_signal_cos:
  assumes "length U_amp = N" and "length U_phase = N" and "0 < N"
  shows "get_time_signal exact_numpy (get_complex_signal exact_numpy U_amp U_phase) =
     Inr (map (\<lambda>n. (\<Sum>k\<leftarrow>[0..<N]. U_amp ! k * cos (U_phase ! k + 2 * pi * real k * real n / real N))
                 / real N) [0..<N])"
proof -
  let ?U = "map2 (\<lambda>a ph. of_real a * exp (\<i> * of_real ph)) U_amp U_phase :: complex list"
  have len: "length ?U = N" using assms by simp
  have ne: "?U \<noteq> []" using len assms(3) by auto
  have "np_ifft exact_numpy = idft" by (simp add: exact_numpy_def)
  then have "ifft exact_numpy ?U = Inr (map (idft ?U) [0..<N])"
    using ne by (simp only: ifft_def len if_False)
  then show ?thesis
    by (simp only: get_complex_signal_exact get_time_signal_def sum.case map_map o_def
        Re_idft_cos [OF assms(1,2)])
qed

lemma cos_odd_half_pi: "odd k \<Longrightarrow> cos (of_int k * (pi / 2)) = 0"
  using cos_zero_iff_int by blast

lemma cos_odd_half_pi_values:
  "cos (3 * pi / 2) = 0" "cos (5 * pi / 2) = 0" "cos (7 * pi / 2) = 0" "cos (9 * pi / 2) = 0"
  "cos (pi * 3 / 2) = 0" "cos (pi * 5 / 2) = 0" "cos (pi * 7 / 2) = 0" "cos (pi * 9 / 2) = 0"
  using cos_odd_half_pi [of 3] cos_odd_half_pi [of 5] cos_odd_half_pi [of 7] cos_odd_half_pi [of 9]
  by (simp_all add: mult.commute)

subsection \<open>Two small signals\<close>

text \<open>
  Two points with the band \<open>[1, 1]\<close> and phase zero; four points with the band \<open>[1, 2]\<close>
  and the phases of the draws \<open>0, 0, 1/2, 0\<close>, first as drawn, then shifted by \<open>\<pi> / 2\<close>;
  evaluated with the exact operations.
\<close>

lemma exact_numpy_fl: "np_fl exact_numpy x = x"
  by (simp add: exact_numpy_def)

lemma exact_numpy_pi: "np_pi exact_numpy = pi"
  by (simp add: exact_numpy_def)

lemma time_signal_example2: "get_time_signal exact_numpy (get_complex_signal exact_numpy [0, 1] [0, 0]) = Inr [1 / 2, - 1 / 2]"
  by (simp add: get_time_signal_cos [where N = 2] upt_rec)

lemma normalized_example2: "normalized_time_signal exact_numpy (get_complex_signal exact_numpy [0, 1] [0, 0]) = Inr [Finite 1, Finite (- 1)]"
  by (simp add: normalized_time_signal_def time_signal_example2 get_normalization_def np_max_def np_divide_def exact_numpy_fl)

lemma time_signal_example4: "get_time_signal exact_numpy (get_complex_signal exact_numpy [0, 1, 1, 0] [0, 0, pi, 0]) = Inr [0, 1 / 4, - 1 / 2, 1 / 4]"
  by (simp add: get_time_signal_cos [where N = 4] upt_rec cos_odd_half_pi_values)

lemma normalized_example4: "normalized_time_signal exact_numpy (get_complex_signal exact_numpy [0, 1, 1, 0] [0, 0, pi, 0])
    = Inr [Finite 0, Finite (1 / 2), Finite (- 1), Finite (1 / 2)]"
  by (simp add: normalized_time_signal_def time_signal_example4 get_normalization_def np_max_def np_divide_def exact_numpy_fl)

lemma time_signal_example4_shifted: "get_time_signal exact_numpy (get_complex_signal exact_numpy [0, 1, 1, 0] [pi / 2, pi / 2, 3 * pi / 2, pi / 2])
    = Inr [0, - 1 / 4, 0, 1 / 4]"
  by (simp add: get_time_signal_cos [where N = 4] upt_rec cos_odd_half_pi_values)

lemma normalized_example4_shifted: "normalized_time_signal exact_numpy (get_complex_signal exact_numpy [0, 1, 1, 0] [pi / 2, pi / 2, 3 * pi / 2, pi / 2])
    = Inr [Finite 0, Finite (- 1), Finite 0, Finite 1]"
  by (simp add: normalized_time_signal_def time_signal_example4_shifted get_normalization_def np_max_def np_divide_def exact_numpy_fl)

lemma example2_record:
  "\<exists>self. ExcitationSignal (\<lambda>x. x) (1, 1) 2 2 1 2 = Inr self
      \<and> self_N self = 2 \<and> self_amp self = 1 \<and> self_eps self = 2 \<and> self_idx self = (1, 1)"
proof -
  have "get_freq_index (1, 1) (get_freq_stamp (\<lambda>x. x) 2 2) = Inr (1, 1)"
    by (simp add: get_freq_index_def get_freq_stamp_def np_where_def item0_def upt_rec)
  then show ?thesis
    by (simp add: ExcitationSignal_def initialization_def get_sampling_interval_def
        get_total_time_def Let_def)
qed

lemma example2_record_eps:
  "\<exists>self. ExcitationSignal (\<lambda>x. x) (1, 1) 2 2 1 eps = Inr self
      \<and> self_N self = 2 \<and> self_amp self = 1 \<and> self_eps self = eps \<and> self_idx self = (1, 1)"
proof -
  have "get_freq_index (1, 1) (get_freq_stamp (\<lambda>x. x) 2 2) = Inr (1, 1)"
    by (simp add: get_freq_index_def get_freq_stamp_def np_where_def item0_def upt_rec)
  then show ?thesis
    by (simp add: ExcitationSignal_def initialization_def get_sampling_interval_def
        get_total_time_def Let_def)
qed

lemma amplitude_example2: "get_frequency_amplitude 2 1 (1, 1) = Inr [0, 1]"
  by (simp add: get_frequency_amplitude_def upto.simps Let_def eval_nat_numeral)

lemma first_difference_example2: "first_difference exact_numpy [Finite 1, Finite (- 1)] = Inr (Finite 2)"
  by (simp add: first_difference_def item_def exact_numpy_fl)

lemma loop_body_example2:
  "loop_body exact_numpy (\<lambda>_. 0) k 2 1 (1, 1) = Inr (Finite 2, ([0, 1], [0, 0]), k + 2)"
  by (simp add: loop_body_def get_frequency_signal_def amplitude_example2 get_random_phase_def
      upt_rec normalized_example2 first_difference_example2 exact_numpy_fl exact_numpy_pi)

lemma example4_record:
  "\<exists>self. ExcitationSignal (\<lambda>x. x) (1, 2) 4 4 1 (3 / 4) = Inr self
      \<and> self_N self = 4 \<and> self_amp self = 1 \<and> self_eps self = 3 / 4 \<and> self_idx self = (1, 2)"
proof -
  have "get_freq_index (1, 2) (get_freq_stamp (\<lambda>x. x) 4 4) = Inr (1, 2)"
    by (simp add: get_freq_index_def get_freq_stamp_def np_where_def item0_def upt_rec)
  then show ?thesis
    by (simp add: ExcitationSignal_def initialization_def get_sampling_interval_def
        get_total_time_def Let_def)
qed

lemma amplitude_example4: "get_frequency_amplitude 4 1 (1, 2) = Inr [0, 1, 1, 0]"
  by (simp add: get_frequency_amplitude_def upto.simps Let_def eval_nat_numeral)

lemma loop_body_example4:
  "loop_body exact_numpy (\<lambda>i. if i = 2 then 1 / 2 else 0) 0 4 1 (1, 2)
     = Inr (Finite (1 / 2), ([0, 1, 1, 0], [0, 0, pi, 0]), 4)"
  by (simp add: loop_body_def get_frequency_signal_def amplitude_example4 get_random_phase_def
      upt_rec normalized_example4 first_difference_def item_def exact_numpy_fl exact_numpy_pi)

section \<open>Feasibility search\<close>

lemma get_frequency_amplitude_errors:
  "get_frequency_amplitude N amp idx = Inl e \<Longrightarrow> e = IndexError"
  by (auto simp: get_frequency_amplitude_def Let_def split: if_splits)

lemma loop_body_errors:
  assumes "loop_body np g k N amp idx = Inl e"
  shows "e = IndexError \<or> e = ValueError"
  using assms
  by (auto simp: loop_body_def get_frequency_signal_def normalized_time_signal_def
      get_time_signal_def ifft_def get_normalization_def np_max_def first_difference_def item_def
      get_random_phase_def Let_def
      dest!: get_frequency_amplitude_errors split: sum.splits if_splits list.splits prod.splits)

lemma while_loop_bound_vars:
  assumes "while_loop np g eps N amp idx diff vars k = Some r"
  shows "vars \<noteq> None \<longrightarrow> r \<noteq> Inl UnboundLocalError"
proof (rule while_loop.raw_induct
    [where P = "\<lambda>np g eps N amp idx diff vars k r. vars \<noteq> None \<longrightarrow> r \<noteq> Inl UnboundLocalError",
      OF _ assms])
  fix loop np g eps N amp idx diff vars k r
  assume IH: "\<And>np g eps N amp idx diff vars k r.
      loop np g eps N amp idx diff vars k = Some r \<Longrightarrow> vars \<noteq> None \<longrightarrow> r \<noteq> Inl UnboundLocalError"
    and step: "(if fval_gt diff eps
      then case loop_body np g k N amp idx of Inl e \<Rightarrow> Some (Inl e)
           | Inr (diff', vars', k') \<Rightarrow> loop np g eps N amp idx diff' (Some vars') k'
      else case vars of None \<Rightarrow> Some (Inl UnboundLocalError)
           | Some v \<Rightarrow> Some (Inr (v, k))) = Some r"
  show "vars \<noteq> None \<longrightarrow> r \<noteq> Inl UnboundLocalError"
  proof (cases "fval_gt diff eps")
    case False
    with step show ?thesis by (auto split: option.splits)
  next
    case True
    show ?thesis
    proof (cases "loop_body np g k N amp idx")
      case (Inl e)
      with step True have "r = Inl e" by simp
      with loop_body_errors [OF Inl] show ?thesis by auto
    next
      case (Inr t)
      obtain diff' vars' k' where t: "t = (diff', vars', k')" by (cases t)
      with step True Inr have "loop np g eps N amp idx diff' (Some vars') k' = Some r" by simp
      from IH [OF this] show ?thesis by simp
    qed
  qed
qed

lemma loop_body_checked:
  assumes "loop_body np g k N amp idx = Inr (diff, v, k')"
  shows "checked np N amp idx diff v \<and> k' = k + N
     \<and> snd v = map (\<lambda>i. np_fl np (np_fl np (g (k + i) * 2) * np_pi np)) [0..<N]"
  using assms
  by (auto simp: loop_body_def get_frequency_signal_def get_random_phase_def checked_def Let_def
      split: sum.splits prod.splits)

lemma while_loop_checked:
  assumes "while_loop np g eps N amp idx diff vars k = Some r"
  shows "\<forall>v k'. r = Inr (v, k') \<longrightarrow>
           (\<forall>w. vars = Some w \<longrightarrow> checked np N amp idx diff w) \<longrightarrow>
           (\<exists>d. checked np N amp idx d v \<and> \<not> fval_gt d eps)"
proof (rule while_loop.raw_induct
    [where P = "\<lambda>np g eps N amp idx diff vars k r. \<forall>v k'. r = Inr (v, k') \<longrightarrow>
        (\<forall>w. vars = Some w \<longrightarrow> checked np N amp idx diff w) \<longrightarrow>
        (\<exists>d. checked np N amp idx d v \<and> \<not> fval_gt d eps)",
      OF _ assms])
  fix loop np g eps N amp idx diff vars k r
  assume IH: "\<And>np g eps N amp idx diff vars k r. loop np g eps N amp idx diff vars k = Some r \<Longrightarrow>
      \<forall>v k'. r = Inr (v, k') \<longrightarrow>
        (\<forall>w. vars = Some w \<longrightarrow> checked np N amp idx diff w) \<longrightarrow>
        (\<exists>d. checked np N amp idx d v \<and> \<not> fval_gt d eps)"
    and step: "(if fval_gt diff eps
      then case loop_body np g k N amp idx of Inl e \<Rightarrow> Some (Inl e)
           | Inr (diff', vars', k') \<Rightarrow> loop np g eps N amp idx diff' (Some vars') k'
      else case vars of None \<Rightarrow> Some (Inl UnboundLocalError)
           | Some v \<Rightarrow> Some (Inr (v, k))) = Some r"
  show "\<forall>v k'. r = Inr (v, k') \<longrightarrow>
        (\<forall>w. vars = Some w \<longrightarrow> checked np N amp idx diff w) \<longrightarrow>
        (\<exists>d. checked np N amp idx d v \<and> \<not> fval_gt d eps)"
  proof (intro allI impI)
    fix v k'
    assume r: "r = Inr (v, k')"
      and inv: "\<forall>w. vars = Some w \<longrightarrow> checked np N amp idx diff w"
    show "\<exists>d. checked np N amp idx d v \<and> \<not> fval_gt d eps"
    proof (cases "fval_gt diff eps")
      case False
      with step r have "vars = Some v" by (auto split: option.splits)
      with inv False show ?thesis by blast
    next
      case True
      with step r obtain diff' vars' k1 where b: "loop_body np g k N amp idx = Inr (diff', vars', k1)"
        and l: "loop np g eps N amp idx diff' (Some vars') k1 = Some (Inr (v, k'))"
        by (auto split: sum.splits)
      from loop_body_checked [OF b] have "checked np N amp idx diff' vars'" by simp
      with IH [OF l] show ?thesis by simp
    qed
  qed
qed

lemma get_one_feasible_signal_checked:
  assumes "get_one_feasible_signal np self g k N amp idx = Some (Inr (v, k'))"
  shows "\<exists>d. checked np N amp idx d v \<and> \<not> fval_gt d (self_eps self)"
  using while_loop_checked [OF assms [unfolded get_one_feasible_signal_def]] by simp

lemma checked_lengths:
  "checked np N amp idx d v \<Longrightarrow> length (fst v) = N \<and> length (snd v) = N \<and> 0 < N"
  by (auto simp: checked_def dest: get_frequency_amplitude_length)

lemma search_example2:
  assumes "self_eps self = 2"
  shows "get_one_feasible_signal exact_numpy self (\<lambda>_. 0) k 2 1 (1, 1) = Some (Inr (([0, 1], [0, 0]), k + 2))"
proof -
  have "while_loop exact_numpy (\<lambda>_. 0) 2 2 1 (1, 1) (Finite 2) (Some ([0, 1], [0, 0])) (k + 2)
      = Some (Inr (([0, 1], [0, 0]), k + 2))"
    by (subst while_loop.simps) simp
  then have "while_loop exact_numpy (\<lambda>_. 0) 2 2 1 (1, 1) (Finite 1000) None k
      = Some (Inr (([0, 1], [0, 0]), k + 2))"
    by (subst while_loop.simps) (simp add: loop_body_example2)
  with assms show ?thesis by (simp add: get_one_feasible_signal_def)
qed

lemma search_example4:
  assumes "self_eps self = 3 / 4"
  shows "get_one_feasible_signal exact_numpy self (\<lambda>i. if i = 2 then 1 / 2 else 0) 0 4 1 (1, 2)
           = Some (Inr (([0, 1, 1, 0], [0, 0, pi, 0]), 4))"
proof -
  let ?g = "\<lambda>i :: nat. if i = 2 then 1 / 2 else 0 :: real"
  have "while_loop exact_numpy ?g (3 / 4) 4 1 (1, 2) (Finite (1 / 2)) (Some ([0, 1, 1, 0], [0, 0, pi, 0])) 4
      = Some (Inr (([0, 1, 1, 0], [0, 0, pi, 0]), 4))"
    by (subst while_loop.simps) simp
  then have "while_loop exact_numpy ?g (3 / 4) 4 1 (1, 2) (Finite 1000) None 0
      = Some (Inr (([0, 1, 1, 0], [0, 0, pi, 0]), 4))"
    by (subst while_loop.simps) (simp add: loop_body_example4)
  then show ?thesis unfolding get_one_feasible_signal_def assms .
qed

subsection \<open>When the search returns\<close>

text \<open>
  For a configuration with at least two points and a band within the grid no attempt
  raises, and the search returns as soon as one attempt, \<open>n\<close> attempts ahead in the
  generator's stream, is not rejected. It never returns when every attempt is rejected.
\<close>

lemma first_difference_total:
  "2 \<le> length u \<Longrightarrow> \<exists>d. first_difference np u = Inr d"
  by (auto simp: first_difference_def item_def)

lemma loop_body_total:
  assumes "2 \<le> N" and "0 \<le> idx_lo" and "idx_lo \<le> idx_hi" and "idx_hi < int N"
  shows "\<exists>d v. loop_body np g k N amp (idx_lo, idx_hi) = Inr (d, v, k + N)"
proof -
  from get_frequency_amplitude_in_range [OF assms(2-4)] obtain U_amp where
    a: "get_frequency_amplitude N amp (idx_lo, idx_hi) = Inr U_amp"
    by blast
  from get_frequency_amplitude_length [OF a] have la: "length U_amp = N" by simp
  let ?ph = "map (\<lambda>i. np_fl np (np_fl np (g (k + i) * 2) * np_pi np)) [0..<N]"
  have "length ?ph = N" and "0 < N" using assms(1) by simp_all
  from normalized_time_signal_total [OF la this] obtain u where
    u: "normalized_time_signal np (get_complex_signal np U_amp ?ph) = Inr u" "length u = N"
    by blast
  from first_difference_total [of u] u(2) assms(1) obtain d where "first_difference np u = Inr d"
    by auto
  with a u(1) show ?thesis
    by (simp add: loop_body_def get_frequency_signal_def get_random_phase_def)
qed

lemma while_loop_returns:
  assumes valid: "2 \<le> N" "0 \<le> idx_lo" "idx_lo \<le> idx_hi" "idx_hi < int N"
    and "fval_gt diff eps"
    and "loop_body np g (k + n * N) N amp (idx_lo, idx_hi) = Inr (d, v, k')"
    and "\<not> fval_gt d eps"
  shows "\<exists>r. while_loop np g eps N amp (idx_lo, idx_hi) diff vars k = Some (Inr r)"
  using assms(5-7)
proof (induction n arbitrary: k diff vars)
  case 0
  then have b: "loop_body np g k N amp (idx_lo, idx_hi) = Inr (d, v, k')" by simp
  have "while_loop np g eps N amp (idx_lo, idx_hi) d (Some v) k' = Some (Inr (v, k'))"
    using "0.prems"(3) by (subst while_loop.simps) simp
  then have "while_loop np g eps N amp (idx_lo, idx_hi) diff vars k = Some (Inr (v, k'))"
    using "0.prems"(1) b by (subst while_loop.simps) simp
  then show ?case by blast
next
  case (Suc n)
  from loop_body_total [OF valid] obtain d1 v1 where
    b: "loop_body np g k N amp (idx_lo, idx_hi) = Inr (d1, v1, k + N)"
    by blast
  have unf: "while_loop np g eps N amp (idx_lo, idx_hi) diff vars k
      = while_loop np g eps N amp (idx_lo, idx_hi) d1 (Some v1) (k + N)"
    using Suc.prems(1) b by (subst while_loop.simps) simp
  show ?case
  proof (cases "fval_gt d1 eps")
    case False
    then have "while_loop np g eps N amp (idx_lo, idx_hi) d1 (Some v1) (k + N) = Some (Inr (v1, k + N))"
      by (subst while_loop.simps) simp
    with unf show ?thesis by simp
  next
    case True
    from Suc.prems(2) have "loop_body np g (k + N + n * N) N amp (idx_lo, idx_hi) = Inr (d, v, k')"
      by (simp add: add.assoc)
    from Suc.IH [OF True this Suc.prems(3)] unf show ?thesis by simp
  qed
qed

lemma feasibility_search_returns:
  assumes "2 \<le> N" and "0 \<le> idx_lo" and "idx_lo \<le> idx_hi" and "idx_hi < int N"
    and "self_eps self < 1000"
    and "loop_body np g (k + n * N) N amp (idx_lo, idx_hi) = Inr (d, v, k')"
    and "\<not> fval_gt d (self_eps self)"
  shows "\<exists>r. get_one_feasible_signal np self g k N amp (idx_lo, idx_hi) = Some (Inr r)"
  unfolding get_one_feasible_signal_def
  using assms(5) by (intro while_loop_returns [OF assms(1-4) _ assms(6,7)]) simp

text \<open>Conversely, a search that is never satisfied does not return.\<close>

lemma while_loop_diverges:
  assumes "while_loop np g eps N amp idx diff vars k = Some r"
  shows "fval_gt diff eps \<longrightarrow>
         (\<forall>n. \<exists>d v k'. loop_body np g (k + n * N) N amp idx = Inr (d, v, k') \<and> fval_gt d eps) \<longrightarrow> False"
proof (rule while_loop.raw_induct
    [where P = "\<lambda>np g eps N amp idx diff vars k r. fval_gt diff eps \<longrightarrow>
         (\<forall>n. \<exists>d v k'. loop_body np g (k + n * N) N amp idx = Inr (d, v, k') \<and> fval_gt d eps)
          \<longrightarrow> False", OF _ assms])
  fix loop np g eps N amp idx diff vars k r
  assume IH: "\<And>np g eps N amp idx diff vars k r. loop np g eps N amp idx diff vars k = Some r \<Longrightarrow>
      fval_gt diff eps \<longrightarrow>
         (\<forall>n. \<exists>d v k'. loop_body np g (k + n * N) N amp idx = Inr (d, v, k') \<and> fval_gt d eps)
          \<longrightarrow> False"
    and step: "(if fval_gt diff eps
      then case loop_body np g k N amp idx of Inl e \<Rightarrow> Some (Inl e)
           | Inr (diff', vars', k') \<Rightarrow> loop np g eps N amp idx diff' (Some vars') k'
      else case vars of None \<Rightarrow> Some (Inl UnboundLocalError)
           | Some v \<Rightarrow> Some (Inr (v, k))) = Some r"
  show "fval_gt diff eps \<longrightarrow>
         (\<forall>n. \<exists>d v k'. loop_body np g (k + n * N) N amp idx = Inr (d, v, k') \<and> fval_gt d eps)
          \<longrightarrow> False"
  proof (intro impI)
    assume gt: "fval_gt diff eps"
      and all: "\<forall>n. \<exists>d v k'. loop_body np g (k + n * N) N amp idx = Inr (d, v, k') \<and> fval_gt d eps"
    from all [rule_format, of 0] obtain d v k' where
      b: "loop_body np g k N amp idx = Inr (d, v, k')" and d: "fval_gt d eps"
      by auto
    from loop_body_checked [OF b] have k': "k' = k + N" by simp
    from step gt b have l: "loop np g eps N amp idx d (Some v) k' = Some r" by simp
    have "\<forall>n. \<exists>d v k''. loop_body np g (k' + n * N) N amp idx = Inr (d, v, k'') \<and> fval_gt d eps"
    proof
      fix n
      from all [rule_format, of "Suc n"] show "\<exists>d v k''. loop_body np g (k' + n * N) N amp idx = Inr (d, v, k'') \<and> fval_gt d eps"
        by (simp add: k' add.assoc)
    qed
    with IH [OF l] d show False by blast
  qed
qed

lemma feasibility_search_diverges:
  assumes "self_eps self < 1000"
    and "\<forall>n. \<exists>d v k'. loop_body np g (k + n * N) N amp idx = Inr (d, v, k') \<and> fval_gt d (self_eps self)"
  shows "get_one_feasible_signal np self g k N amp idx = None"
proof (cases "get_one_feasible_signal np self g k N amp idx")
  case None
  then show ?thesis .
next
  case (Some r)
  then have w: "while_loop np g (self_eps self) N amp idx (Finite 1000) None k = Some r"
    by (simp add: get_one_feasible_signal_def)
  have gt: "fval_gt (Finite 1000) (self_eps self)" using assms(1) by simp
  have False by (rule while_loop_diverges [OF w, THEN mp, THEN mp, OF gt assms(2)])
  then show ?thesis ..
qed

text \<open>
  Two points with the band \<open>[1, 1]\<close> and a generator that only draws zeros: every attempt
  has \<open>\<bar>u\<^sub>0 - u\<^sub>1\<bar> = 2\<close>, and with the tolerance \<open>1\<close> the search does not return.
\<close>

lemma search_example2_diverges:
  assumes "self_eps self = 1"
  shows "get_one_feasible_signal exact_numpy self (\<lambda>_. 0) k 2 1 (1, 1) = None"
proof (rule feasibility_search_diverges)
  show "self_eps self < 1000" using assms by simp
  show "\<forall>n. \<exists>d v k'. loop_body exact_numpy (\<lambda>_. 0) (k + n * 2) 2 1 (1, 1) = Inr (d, v, k')
          \<and> fval_gt d (self_eps self)"
    using assms by (simp add: loop_body_example2)
qed

text \<open>With a tolerance of at least \<open>1000\<close> the search raises before any attempt.\<close>

lemma search_unbound:
  assumes "1000 \<le> self_eps self"
  shows "get_one_feasible_signal np self g k N amp idx = Some (Inl UnboundLocalError)"
  using assms
  by (simp add: get_one_feasible_signal_def while_loop.simps [of _ _ _ _ _ _ "Finite 1000"])

subsection \<open>The sentinel\<close>

text \<open>
  C10: with a tolerance \<open>eps \<ge> 1000\<close> the loop condition \<^verbatim>\<open>diff > self.eps\<close> is false
  for the sentinel \<open>1000.0\<close>, the body is never executed, and
  \<^verbatim>\<open>return U_amp, U_phase\<close> raises UnboundLocalError, whatever the generator holds.
  With \<open>eps < 1000\<close> the call starts with one execution of the body, a synthesis attempt,
  and it never ends in UnboundLocalError.
\<close>

theorem feasibility_search_sentinel:
  "(1000 \<le> self_eps self \<longrightarrow>
      get_one_feasible_signal np self g k N amp idx = Some (Inl UnboundLocalError))
   \<and> (self_eps self < 1000 \<longrightarrow>
      get_one_feasible_signal np self g k N amp idx =
        (case loop_body np g k N amp idx of
           Inl e \<Rightarrow> Some (Inl e)
         | Inr (diff', vars', k') \<Rightarrow>
             while_loop np g (self_eps self) N amp idx diff' (Some vars') k')
      \<and> get_one_feasible_signal np self g k N amp idx \<noteq> Some (Inl UnboundLocalError))"
proof (intro conjI impI)
  assume "1000 \<le> self_eps self"
  then show "get_one_feasible_signal np self g k N amp idx = Some (Inl UnboundLocalError)"
    by (simp add: get_one_feasible_signal_def while_loop.simps [of _ _ _ _ _ _ "Finite 1000"])
next
  assume lt: "self_eps self < 1000"
  then show unf: "get_one_feasible_signal np self g k N amp idx =
        (case loop_body np g k N amp idx of
           Inl e \<Rightarrow> Some (Inl e)
         | Inr (diff', vars', k') \<Rightarrow>
             while_loop np g (self_eps self) N amp idx diff' (Some vars') k')"
    by (simp add: get_one_feasible_signal_def while_loop.simps [of _ _ _ _ _ _ "Finite 1000"])
  show "get_one_feasible_signal np self g k N amp idx \<noteq> Some (Inl UnboundLocalError)"
  proof
    assume u: "get_one_feasible_signal np self g k N amp idx = Some (Inl UnboundLocalError)"
    show False
    proof (cases "loop_body np g k N amp idx")
      case (Inl e)
      with unf u have "e = UnboundLocalError" by simp
      with loop_body_errors [OF Inl] show False by simp
    next
      case (Inr t)
      obtain diff' vars' k' where t: "t = (diff', vars', k')" by (cases t)
      with unf u Inr
      have "while_loop np g (self_eps self) N amp idx diff' (Some vars') k' = Some (Inl UnboundLocalError)"
        by simp
      from while_loop_bound_vars [OF this] show False by simp
    qed
  qed
qed

theorem feasibility_search_sentinel_witness:
  "\<exists>self self'. ExcitationSignal (\<lambda>x. x) (1, 1) 2 2 1 1000 = Inr self
      \<and> 1000 \<le> self_eps self
      \<and> get_one_feasible_signal exact_numpy self (\<lambda>_. 0) 0 2 1 (1, 1) = Some (Inl UnboundLocalError)
      \<and> ExcitationSignal (\<lambda>x. x) (1, 1) 2 2 1 2 = Inr self'
      \<and> self_eps self' < 1000
      \<and> get_one_feasible_signal exact_numpy self' (\<lambda>_. 0) 0 2 1 (1, 1) = Some (Inr (([0, 1], [0, 0]), 2))
      \<and> get_one_feasible_signal exact_numpy self' (\<lambda>_. 0) 0 2 1 (1, 1) \<noteq> Some (Inl UnboundLocalError)"
proof -
  have "get_freq_index (1, 1) (get_freq_stamp (\<lambda>x. x) 2 2) = Inr (1, 1)"
    by (simp add: get_freq_index_def get_freq_stamp_def np_where_def item0_def upt_rec)
  then obtain self where s: "ExcitationSignal (\<lambda>x. x) (1, 1) 2 2 1 1000 = Inr self"
    and e: "self_eps self = 1000"
    by (simp add: ExcitationSignal_def initialization_def get_sampling_interval_def
        get_total_time_def Let_def)
  from example2_record obtain self' where s': "ExcitationSignal (\<lambda>x. x) (1, 1) 2 2 1 2 = Inr self'"
    and e': "self_eps self' = 2"
    by blast
  have ge: "1000 \<le> self_eps self" and lt: "self_eps self' < 1000"
    using e e' by simp_all
  from feasibility_search_sentinel [of self exact_numpy "\<lambda>_. 0" 0 2 1 "(1, 1)"] ge
  have a: "get_one_feasible_signal exact_numpy self (\<lambda>_. 0) 0 2 1 (1, 1) = Some (Inl UnboundLocalError)"
    by blast
  from feasibility_search_sentinel [of self' exact_numpy "\<lambda>_. 0" 0 2 1 "(1, 1)"] lt
  have b: "get_one_feasible_signal exact_numpy self' (\<lambda>_. 0) 0 2 1 (1, 1) \<noteq> Some (Inl UnboundLocalError)"
    by blast
  from search_example2 [OF e', of 0]
  have c: "get_one_feasible_signal exact_numpy self' (\<lambda>_. 0) 0 2 1 (1, 1) = Some (Inr (([0, 1], [0, 0]), 2))"
    by simp
  from s ge a s' lt b c show ?thesis by blast
qed

section \<open>Multi-channel assembly\<close>

lemma orthogonal_loop:
  assumes lens: "length U_amp0 = N" "length U_phase0 = N" "0 < N"
    and init: "length A0 = nr_inputs" "length P0 = nr_inputs" "length u0 = nr_inputs"
  shows "\<exists>A P u. for_loop (orthogonal_channel np nr_inputs U_amp0 U_phase0) [0..<nr_inputs]
             (A0, P0, u0, k') = Some (Inr (A, P, u, k'))
           \<and> length A = nr_inputs \<and> length P = nr_inputs \<and> length u = nr_inputs
           \<and> (\<forall>i<nr_inputs. A ! i = U_amp0
                \<and> P ! i = map (\<lambda>x. np_fl np (x + np_fl np (np_fl np (np_fl np (2 * np_pi np)
                              * real i) / real nr_inputs))) U_phase0
                \<and> normalized_time_signal np (get_complex_signal np U_amp0
                      (map (\<lambda>x. np_fl np (x + np_fl np (np_fl np (np_fl np (2 * np_pi np)
                              * real i) / real nr_inputs))) U_phase0)) = Inr (u ! i))"
proof -
  let ?shift = "\<lambda>i. map (\<lambda>x. np_fl np (x + np_fl np (np_fl np (np_fl np (2 * np_pi np)
                              * real i) / real nr_inputs))) U_phase0"
  define I where "I = (\<lambda>n (s :: real list list \<times> real list list \<times> fval list list \<times> nat).
     case s of (A, P, u, kk) \<Rightarrow>
       kk = k' \<and> length A = nr_inputs \<and> length P = nr_inputs \<and> length u = nr_inputs
       \<and> (\<forall>i<n. A ! i = U_amp0 \<and> P ! i = ?shift i
            \<and> normalized_time_signal np (get_complex_signal np U_amp0 (?shift i)) = Inr (u ! i)))"
  have I0: "I 0 (A0, P0, u0, k')"
    using init by (simp add: I_def)
  have step: "\<exists>s'. orthogonal_channel np nr_inputs U_amp0 U_phase0 i s = Some (Inr s') \<and> I (Suc i) s'"
    if i: "i < nr_inputs" and inv: "I i s" for i s
  proof -
    obtain A P u kk where s: "s = (A, P, u, kk)" by (cases s) auto
    from inv s have kk: "kk = k'" and lA: "length A = nr_inputs" and lP: "length P = nr_inputs"
      and lu: "length u = nr_inputs"
      and prev: "\<forall>j<i. A ! j = U_amp0 \<and> P ! j = ?shift j
            \<and> normalized_time_signal np (get_complex_signal np U_amp0 (?shift j)) = Inr (u ! j)"
      by (simp_all add: I_def)
    from normalized_time_signal_total [of U_amp0 N "?shift i"] lens
    obtain r where r: "normalized_time_signal np (get_complex_signal np U_amp0 (?shift i)) = Inr r"
      by auto
    let ?s' = "(A[i := U_amp0], P[i := ?shift i], u[i := r], kk)"
    have run: "orthogonal_channel np nr_inputs U_amp0 U_phase0 i s = Some (Inr ?s')"
      using s i lA lP r by (simp add: orthogonal_channel_def Let_def)
    have "I (Suc i) ?s'"
      unfolding I_def
    proof (simp only: prod.case, intro conjI allI impI)
      fix j assume j: "j < Suc i"
      show "A[i := U_amp0] ! j = U_amp0"
        using j i lA prev by (cases "j = i") simp_all
      show "P[i := ?shift i] ! j = ?shift j"
        using j i lP prev by (cases "j = i") simp_all
      show "normalized_time_signal np (get_complex_signal np U_amp0 (?shift j)) = Inr (u[i := r] ! j)"
        using j i lu prev r by (cases "j = i") simp_all
    qed (simp_all add: kk lA lP lu)
    with run show ?thesis by blast
  qed
  from for_loop_upt_total [of I "(A0, P0, u0, k')" nr_inputs
      "orthogonal_channel np nr_inputs U_amp0 U_phase0", OF I0 step]
  obtain s' where s': "for_loop (orthogonal_channel np nr_inputs U_amp0 U_phase0) [0..<nr_inputs]
      (A0, P0, u0, k') = Some (Inr s')" and inv: "I nr_inputs s'"
    by blast
  obtain A P u kk where "s' = (A, P, u, kk)" by (cases s') auto
  with s' inv show ?thesis by (auto simp: I_def)
qed

lemma get_signals_orthogonal_rows:
  assumes "get_one_feasible_signal np self g k N amp idx = Some (Inr ((U_amp0, U_phase0), k'))"
  shows "\<exists>U_amp U_phase u.
           get_signals np self g k N amp nr_inputs idx ''orthogonal'' = Some (Inr (U_amp, U_phase, u, k'))
           \<and> length U_amp = nr_inputs \<and> length U_phase = nr_inputs \<and> length u = nr_inputs
           \<and> length U_amp0 = N \<and> length U_phase0 = N \<and> 0 < N
           \<and> (\<forall>i<nr_inputs. U_amp ! i = U_amp0
                \<and> U_phase ! i = map (\<lambda>x. np_fl np (x + np_fl np (np_fl np (np_fl np (2 * np_pi np)
                              * real i) / real nr_inputs))) U_phase0
                \<and> normalized_time_signal np (get_complex_signal np U_amp0
                      (map (\<lambda>x. np_fl np (x + np_fl np (np_fl np (np_fl np (2 * np_pi np)
                              * real i) / real nr_inputs))) U_phase0)) = Inr (u ! i))"
proof -
  from get_one_feasible_signal_checked [OF assms] obtain d where "checked np N amp idx d (U_amp0, U_phase0)"
    by blast
  from checked_lengths [OF this] have lens: "length U_amp0 = N" "length U_phase0 = N" "0 < N"
    by simp_all
  from orthogonal_loop [OF lens, of "replicate nr_inputs (replicate N 0)" nr_inputs
      "replicate nr_inputs (replicate N 0)" "replicate nr_inputs (replicate N (Finite 0))" np k']
  obtain A P u where run: "for_loop (orthogonal_channel np nr_inputs U_amp0 U_phase0) [0..<nr_inputs]
        (replicate nr_inputs (replicate N 0), replicate nr_inputs (replicate N 0),
         replicate nr_inputs (replicate N (Finite 0)), k') = Some (Inr (A, P, u, k'))"
    and rest: "length A = nr_inputs \<and> length P = nr_inputs \<and> length u = nr_inputs
      \<and> (\<forall>i<nr_inputs. A ! i = U_amp0
                \<and> P ! i = map (\<lambda>x. np_fl np (x + np_fl np (np_fl np (np_fl np (2 * np_pi np)
                              * real i) / real nr_inputs))) U_phase0
                \<and> normalized_time_signal np (get_complex_signal np U_amp0
                      (map (\<lambda>x. np_fl np (x + np_fl np (np_fl np (np_fl np (2 * np_pi np)
                              * real i) / real nr_inputs))) U_phase0)) = Inr (u ! i))"
    by auto
  have "get_signals np self g k N amp nr_inputs idx ''orthogonal'' = Some (Inr (A, P, u, k'))"
    using assms run by (simp add: get_signals_def)
  with rest lens show ?thesis by blast
qed

text \<open>The quotients of the normalization, written out.\<close>

lemma get_normalization_formula:
  assumes "get_normalization np x = Inr u"
  shows "u = (let mx = Max (set (map abs x))
              in map (\<lambda>v. if mx = 0 then NaN else Finite (np_fl np (v / mx))) x)"
proof -
  let ?mx = "Max (set (map abs x))"
  from assms have ne: "x \<noteq> []"
    by (auto simp: get_normalization_def np_max_def)
  then have mx: "np_max (map abs x) = Inr ?mx"
    by (intro np_max_Max) simp
  with assms have u: "u = map (\<lambda>v. np_divide (np_fl np) v ?mx) x"
    by (simp add: get_normalization_def)
  have "np_divide (np_fl np) v ?mx = (if ?mx = 0 then NaN else Finite (np_fl np (v / ?mx)))"
    if "v \<in> set x" for v
  proof -
    from that have "\<bar>v\<bar> \<in> set (map abs x)" by simp
    then have "\<bar>v\<bar> \<le> ?mx" by (intro Max_ge) simp_all
    then show ?thesis by (auto simp: np_divide_def)
  qed
  then have "map (\<lambda>v. np_divide (np_fl np) v ?mx) x
      = map (\<lambda>v. if ?mx = 0 then NaN else Finite (np_fl np (v / ?mx))) x"
    by (intro map_cong refl)
  with u show ?thesis by (simp only: Let_def)
qed

lemma get_signals_orthogonal_rows_exact:
  assumes "get_one_feasible_signal exact_numpy self g k N amp idx
      = Some (Inr ((U_amp0, U_phase0), k'))"
  shows "\<exists>U_amp U_phase u.
           get_signals exact_numpy self g k N amp nr_inputs idx ''orthogonal''
             = Some (Inr (U_amp, U_phase, u, k'))
           \<and> length U_amp = nr_inputs \<and> length U_phase = nr_inputs \<and> length u = nr_inputs
           \<and> length U_amp0 = N \<and> length U_phase0 = N \<and> 0 < N
           \<and> (\<forall>i<nr_inputs. U_amp ! i = U_amp0
                \<and> U_phase ! i = map (\<lambda>x. x + 2 * pi * real i / real nr_inputs) U_phase0
                \<and> normalized_time_signal exact_numpy (get_complex_signal exact_numpy U_amp0
                      (map (\<lambda>x. x + 2 * pi * real i / real nr_inputs) U_phase0)) = Inr (u ! i))"
  using get_signals_orthogonal_rows [OF assms, of nr_inputs]
  by (simp add: exact_numpy_fl exact_numpy_pi)

text \<open>
  C2: in mode \<^verbatim>\<open>'orthogonal'\<close>, \<^verbatim>\<open>get_signals\<close> runs the feasibility search once:
  it does not return, or raises, exactly when the search does, and when the search returns
  the base pair \<open>(U_amp0, U_phase0)\<close> the generator is left where the search left it. Every
  amplitude row is \<open>U_amp0\<close>. Every entry of phase row \<open>i\<close> is the entry of \<open>U_phase0\<close> plus
  the shift \<^verbatim>\<open>2 * np.pi * i / nr_inputs\<close>, each operation rounded. The time signal of
  channel \<open>i\<close> is the real part of \<^verbatim>\<open>np.fft.ifft\<close> of the products
  \<^verbatim>\<open>U_amp0 * np.exp(1j * U_phase[i])\<close>, divided by its largest absolute value (\<open>NaN\<close>
  when that is zero). With the exact operations the shift is \<open>2\<pi> i / nr_inputs\<close> and the
  time signal is the normalized real inverse transform
  \<open>x\<^sub>n = (1 / N) \<Sum>\<^sub>k U_amp0\<^sub>k cos (U_phase\<^sub>i\<^sub>k + 2\<pi> k n / N)\<close>.
\<close>

theorem orthogonal_mode_phase_shift:
  "(get_one_feasible_signal np self g k N amp idx = None \<longrightarrow>
      get_signals np self g k N amp nr_inputs idx ''orthogonal'' = None)
   \<and> (\<forall>e. get_one_feasible_signal np self g k N amp idx = Some (Inl e) \<longrightarrow>
      get_signals np self g k N amp nr_inputs idx ''orthogonal'' = Some (Inl e))
   \<and> (\<forall>U_amp0 U_phase0 k'.
        get_one_feasible_signal np self g k N amp idx = Some (Inr ((U_amp0, U_phase0), k')) \<longrightarrow>
        (\<exists>U_amp U_phase u.
           get_signals np self g k N amp nr_inputs idx ''orthogonal'' = Some (Inr (U_amp, U_phase, u, k'))
           \<and> length U_amp = nr_inputs \<and> length U_phase = nr_inputs \<and> length u = nr_inputs
           \<and> length U_amp0 = N \<and> length U_phase0 = N
           \<and> (\<forall>i<nr_inputs. U_amp ! i = U_amp0
                \<and> length (U_phase ! i) = N
                \<and> (\<forall>j<N. U_phase ! i ! j =
                      np_fl np (U_phase0 ! j
                        + np_fl np (np_fl np (np_fl np (2 * np_pi np) * real i) / real nr_inputs)))
                \<and> u ! i =
                    (let U = map2 (\<lambda>a ph. let z = np_exp np (Complex 0 ph)
                                          in Complex (np_fl np (a * Re z)) (np_fl np (a * Im z)))
                               U_amp0 (U_phase ! i);
                         x = map (\<lambda>n. Re (np_ifft np U n)) [0..<length U];
                         mx = Max (set (map abs x))
                     in map (\<lambda>v. if mx = 0 then NaN else Finite (np_fl np (v / mx))) x))))
   \<and> (\<forall>U_amp0 U_phase0 k'.
        get_one_feasible_signal exact_numpy self g k N amp idx
          = Some (Inr ((U_amp0, U_phase0), k')) \<longrightarrow>
        (\<exists>U_amp U_phase u.
           get_signals exact_numpy self g k N amp nr_inputs idx ''orthogonal''
             = Some (Inr (U_amp, U_phase, u, k'))
           \<and> (\<forall>i<nr_inputs. U_amp ! i = U_amp0
                \<and> (\<forall>j<N. U_phase ! i ! j = U_phase0 ! j + 2 * pi * real i / real nr_inputs)
                \<and> u ! i =
                    (let x = map (\<lambda>n. (\<Sum>k\<leftarrow>[0..<N]. U_amp0 ! k
                                          * cos (U_phase ! i ! k + 2 * pi * real k * real n / real N))
                                       / real N) [0..<N];
                         mx = Max (set (map abs x))
                     in map (\<lambda>v. if mx = 0 then NaN else Finite (v / mx)) x))))"
proof (intro conjI allI impI)
  assume "get_one_feasible_signal np self g k N amp idx = None"
  then show "get_signals np self g k N amp nr_inputs idx ''orthogonal'' = None"
    by (simp add: get_signals_def)
next
  fix e assume "get_one_feasible_signal np self g k N amp idx = Some (Inl e)"
  then show "get_signals np self g k N amp nr_inputs idx ''orthogonal'' = Some (Inl e)"
    by (simp add: get_signals_def)
next
  fix U_amp0 U_phase0 k'
  assume s: "get_one_feasible_signal np self g k N amp idx = Some (Inr ((U_amp0, U_phase0), k'))"
  let ?shift = "\<lambda>i. map (\<lambda>x. np_fl np (x + np_fl np (np_fl np (np_fl np (2 * np_pi np)
                              * real i) / real nr_inputs))) U_phase0"
  from get_signals_orthogonal_rows [OF s, of nr_inputs]
  obtain A P u where
    run: "get_signals np self g k N amp nr_inputs idx ''orthogonal'' = Some (Inr (A, P, u, k'))"
    and len: "length A = nr_inputs" "length P = nr_inputs" "length u = nr_inputs"
    and lens: "length U_amp0 = N" "length U_phase0 = N" and pos: "0 < N"
    and rows: "\<forall>i<nr_inputs. A ! i = U_amp0 \<and> P ! i = ?shift i
                \<and> normalized_time_signal np (get_complex_signal np U_amp0 (?shift i)) = Inr (u ! i)"
    by blast
  have "A ! i = U_amp0
        \<and> length (P ! i) = N
        \<and> (\<forall>j<N. P ! i ! j = np_fl np (U_phase0 ! j
              + np_fl np (np_fl np (np_fl np (2 * np_pi np) * real i) / real nr_inputs)))
        \<and> u ! i =
            (let U = map2 (\<lambda>a ph. let z = np_exp np (Complex 0 ph)
                                  in Complex (np_fl np (a * Re z)) (np_fl np (a * Im z)))
                       U_amp0 (P ! i);
                 x = map (\<lambda>n. Re (np_ifft np U n)) [0..<length U];
                 mx = Max (set (map abs x))
             in map (\<lambda>v. if mx = 0 then NaN else Finite (np_fl np (v / mx))) x)"
    if i: "i < nr_inputs" for i
  proof -
    from rows i have a: "A ! i = U_amp0" and p: "P ! i = ?shift i"
      and n: "normalized_time_signal np (get_complex_signal np U_amp0 (?shift i)) = Inr (u ! i)"
      by blast+
    from p lens have l: "length (P ! i) = N" by simp
    from p lens have e: "\<forall>j<N. P ! i ! j = np_fl np (U_phase0 ! j
              + np_fl np (np_fl np (np_fl np (2 * np_pi np) * real i) / real nr_inputs))"
      by simp
    let ?U = "map2 (\<lambda>a ph. let z = np_exp np (Complex 0 ph)
                            in Complex (np_fl np (a * Re z)) (np_fl np (a * Im z)))
                 U_amp0 (?shift i)"
    let ?x = "map (\<lambda>n. Re (np_ifft np ?U n)) [0..<length ?U]"
    have U: "get_complex_signal np U_amp0 (?shift i) = ?U"
      by (simp only: get_complex_signal_def)
    have "length ?U = N" using lens by simp
    with pos have "?U \<noteq> []" by auto
    then have ts: "get_time_signal np ?U = Inr ?x"
      by (simp add: get_time_signal_def ifft_def)
    from n have "get_normalization np ?x = Inr (u ! i)"
      unfolding U normalized_time_signal_def ts by simp
    from get_normalization_formula [OF this]
    have "u ! i = (let U = ?U; x = map (\<lambda>n. Re (np_ifft np U n)) [0..<length U];
                      mx = Max (set (map abs x))
                   in map (\<lambda>v. if mx = 0 then NaN else Finite (np_fl np (v / mx))) x)"
      by (simp only: Let_def)
    with a l e show ?thesis
      unfolding p by blast
  qed
  with run len lens show "\<exists>U_amp U_phase u.
           get_signals np self g k N amp nr_inputs idx ''orthogonal'' = Some (Inr (U_amp, U_phase, u, k'))
           \<and> length U_amp = nr_inputs \<and> length U_phase = nr_inputs \<and> length u = nr_inputs
           \<and> length U_amp0 = N \<and> length U_phase0 = N
           \<and> (\<forall>i<nr_inputs. U_amp ! i = U_amp0
                \<and> length (U_phase ! i) = N
                \<and> (\<forall>j<N. U_phase ! i ! j =
                      np_fl np (U_phase0 ! j
                        + np_fl np (np_fl np (np_fl np (2 * np_pi np) * real i) / real nr_inputs)))
                \<and> u ! i =
                    (let U = map2 (\<lambda>a ph. let z = np_exp np (Complex 0 ph)
                                          in Complex (np_fl np (a * Re z)) (np_fl np (a * Im z)))
                               U_amp0 (U_phase ! i);
                         x = map (\<lambda>n. Re (np_ifft np U n)) [0..<length U];
                         mx = Max (set (map abs x))
                     in map (\<lambda>v. if mx = 0 then NaN else Finite (np_fl np (v / mx))) x))"
    by blast
next
  fix U_amp0 U_phase0 k'
  assume s: "get_one_feasible_signal exact_numpy self g k N amp idx
      = Some (Inr ((U_amp0, U_phase0), k'))"
  let ?shift = "\<lambda>i. map (\<lambda>x. x + 2 * pi * real i / real nr_inputs) U_phase0"
  from get_signals_orthogonal_rows_exact [OF s, of nr_inputs]
  obtain A P u where
    run: "get_signals exact_numpy self g k N amp nr_inputs idx ''orthogonal''
        = Some (Inr (A, P, u, k'))"
    and lens: "length U_amp0 = N" "length U_phase0 = N" "0 < N"
    and rows: "\<forall>i<nr_inputs. A ! i = U_amp0 \<and> P ! i = ?shift i
                \<and> normalized_time_signal exact_numpy (get_complex_signal exact_numpy U_amp0 (?shift i))
                    = Inr (u ! i)"
    by blast
  have "A ! i = U_amp0
        \<and> (\<forall>j<N. P ! i ! j = U_phase0 ! j + 2 * pi * real i / real nr_inputs)
        \<and> u ! i =
            (let x = map (\<lambda>n. (\<Sum>k\<leftarrow>[0..<N]. U_amp0 ! k
                                  * cos (P ! i ! k + 2 * pi * real k * real n / real N))
                               / real N) [0..<N];
                 mx = Max (set (map abs x))
             in map (\<lambda>v. if mx = 0 then NaN else Finite (v / mx)) x)"
    if i: "i < nr_inputs" for i
  proof -
    from rows i have a: "A ! i = U_amp0" and p: "P ! i = ?shift i"
      and n: "normalized_time_signal exact_numpy (get_complex_signal exact_numpy U_amp0 (?shift i))
                = Inr (u ! i)"
      by blast+
    from p lens have e: "\<forall>j<N. P ! i ! j = U_phase0 ! j + 2 * pi * real i / real nr_inputs"
      by simp
    have l: "length (?shift i) = N" using lens by simp
    let ?U = "map2 (\<lambda>a ph. of_real a * exp (\<i> * of_real ph)) U_amp0 (?shift i) :: complex list"
    let ?x = "map (\<lambda>n. (\<Sum>k\<leftarrow>[0..<N]. U_amp0 ! k
                          * cos (?shift i ! k + 2 * pi * real k * real n / real N))
                       / real N) [0..<N]"
    have U: "get_complex_signal exact_numpy U_amp0 (?shift i) = ?U"
      by (simp add: get_complex_signal_def exact_numpy_def exact_complex_signal)
    have lU: "length ?U = N" using lens by simp
    with lens(3) have "?U \<noteq> []" by auto
    then have "get_time_signal exact_numpy ?U = Inr (map (\<lambda>n. Re (idft ?U n)) [0..<N])"
      using lU by (simp add: get_time_signal_def ifft_def exact_numpy_def)
    then have ts: "get_time_signal exact_numpy ?U = Inr ?x"
      by (simp only: Re_idft_cos [OF lens(1) l])
    from n have "get_normalization exact_numpy ?x = Inr (u ! i)"
      unfolding U normalized_time_signal_def ts by simp
    from get_normalization_formula [OF this]
    have "u ! i = (let x = ?x; mx = Max (set (map abs x))
                   in map (\<lambda>v. if mx = 0 then NaN else Finite (v / mx)) x)"
      by (simp only: Let_def exact_numpy_fl)
    with a e show ?thesis
      unfolding p by blast
  qed
  with run show "\<exists>U_amp U_phase u.
           get_signals exact_numpy self g k N amp nr_inputs idx ''orthogonal''
             = Some (Inr (U_amp, U_phase, u, k'))
           \<and> (\<forall>i<nr_inputs. U_amp ! i = U_amp0
                \<and> (\<forall>j<N. U_phase ! i ! j = U_phase0 ! j + 2 * pi * real i / real nr_inputs)
                \<and> u ! i =
                    (let x = map (\<lambda>n. (\<Sum>k\<leftarrow>[0..<N]. U_amp0 ! k
                                          * cos (U_phase ! i ! k + 2 * pi * real k * real n / real N))
                                       / real N) [0..<N];
                         mx = Max (set (map abs x))
                     in map (\<lambda>v. if mx = 0 then NaN else Finite (v / mx)) x))"
    by blast
qed

theorem orthogonal_mode_phase_shift_witness:
  "\<exists>self U_amp U_phase u.
      ExcitationSignal (\<lambda>x. x) (1, 1) 2 2 1 2 = Inr self
      \<and> get_one_feasible_signal exact_numpy self (\<lambda>_. 0) 0 2 1 (1, 1)
          = Some (Inr (([0, 1], [0, 0]), 2))
      \<and> get_signals exact_numpy self (\<lambda>_. 0) 0 2 1 2 (1, 1) ''orthogonal''
          = Some (Inr (U_amp, U_phase, u, 2))
      \<and> U_amp ! 0 = [0, 1] \<and> U_amp ! 1 = [0, 1]
      \<and> U_phase ! 0 ! 0 = 0 \<and> U_phase ! 0 ! 1 = 0
      \<and> U_phase ! 1 ! 0 = pi \<and> U_phase ! 1 ! 1 = pi
      \<and> u ! 0 = [Finite 1, Finite (- 1)]
      \<and> u ! 1 = [Finite (- 1), Finite 1]"
proof -
  from example2_record obtain self where s: "ExcitationSignal (\<lambda>x. x) (1, 1) 2 2 1 2 = Inr self"
    and e: "self_eps self = 2"
    by blast
  have f: "get_one_feasible_signal exact_numpy self (\<lambda>_. 0) 0 2 1 (1, 1)
      = Some (Inr (([0, 1], [0, 0]), 2))"
    using search_example2 [OF e, of 0] by simp
  from orthogonal_mode_phase_shift [of exact_numpy self "\<lambda>_. 0" 0 2 1 "(1, 1)" 2] f
  obtain U_amp U_phase u where
    g: "get_signals exact_numpy self (\<lambda>_. 0) 0 2 1 2 (1, 1) ''orthogonal''
        = Some (Inr (U_amp, U_phase, u, 2))"
    and rows: "\<forall>i<2. U_amp ! i = [0, 1]
                \<and> (\<forall>j<2. U_phase ! i ! j = [0, 0] ! j + 2 * pi * real i / real 2)
                \<and> u ! i =
                    (let x = map (\<lambda>n. (\<Sum>k\<leftarrow>[0..<2]. [0, 1] ! k
                                          * cos (U_phase ! i ! k + 2 * pi * real k * real n / real 2))
                                       / real 2) [0..<2];
                         mx = Max (set (map abs x))
                     in map (\<lambda>v. if mx = 0 then NaN else Finite (v / mx)) x)"
    by blast
  have i0: "(0 :: nat) < 2" and i1: "(1 :: nat) < 2" by simp_all
  from rows i0 have a0: "U_amp ! 0 = [0, 1]"
    and p0: "\<forall>j<2. U_phase ! 0 ! j = [0, 0] ! j + 2 * pi * real 0 / real 2"
    and u0: "u ! 0 =
        (let x = map (\<lambda>n. (\<Sum>k\<leftarrow>[0..<2]. [0, 1] ! k
                              * cos (U_phase ! 0 ! k + 2 * pi * real k * real n / real 2))
                           / real 2) [0..<2];
             mx = Max (set (map abs x))
         in map (\<lambda>v. if mx = 0 then NaN else Finite (v / mx)) x)"
    by blast+
  from rows i1 have a1: "U_amp ! 1 = [0, 1]"
    and p1: "\<forall>j<2. U_phase ! 1 ! j = [0, 0] ! j + 2 * pi * real 1 / real 2"
    and u1: "u ! 1 =
        (let x = map (\<lambda>n. (\<Sum>k\<leftarrow>[0..<2]. [0, 1] ! k
                              * cos (U_phase ! 1 ! k + 2 * pi * real k * real n / real 2))
                           / real 2) [0..<2];
             mx = Max (set (map abs x))
         in map (\<lambda>v. if mx = 0 then NaN else Finite (v / mx)) x)"
    by blast+
  from p0 have q0: "U_phase ! 0 ! 0 = 0" "U_phase ! 0 ! Suc 0 = 0" by simp_all
  from p1 have q1: "U_phase ! Suc 0 ! 0 = pi" "U_phase ! Suc 0 ! Suc 0 = pi" by simp_all
  have v0: "u ! 0 = [Finite 1, Finite (- 1)]"
    unfolding u0 by (simp add: q0 upt_rec Let_def)
  have v1: "u ! 1 = [Finite (- 1), Finite 1]"
    unfolding u1 by (simp add: q1 upt_rec Let_def)
  from q0 q1 have "U_phase ! 0 ! 0 = 0 \<and> U_phase ! 0 ! 1 = 0
      \<and> U_phase ! 1 ! 0 = pi \<and> U_phase ! 1 ! 1 = pi"
    by simp
  with s f g a0 a1 v0 v1 show ?thesis by blast
qed

subsection \<open>The cyclicity condition per channel\<close>

text \<open>
  The search accepts a pair only when \<^verbatim>\<open>diff > self.eps\<close> is false for its normalized
  time signal. In mode \<^verbatim>\<open>'random'\<close> every channel is the signal of an accepted pair, and
  so is channel \<open>0\<close> in mode \<^verbatim>\<open>'orthogonal'\<close>, whose phase shift is zero (shown with
  the exact operations, where adding the zero shift leaves a phase as it is).
\<close>

lemma random_mode_checked:
  assumes "get_signals np self g k N amp nr_inputs idx ''random'' = Some (Inr (U_amp, U_phase, u, k'))"
  shows "\<forall>i<nr_inputs. \<exists>d. first_difference np (u ! i) = Inr d \<and> \<not> fval_gt d (self_eps self)"
proof -
  let ?A = "replicate nr_inputs (replicate N (0 :: real))"
  let ?u = "replicate nr_inputs (replicate N (Finite 0))"
  define I where "I = (\<lambda>n (s :: real list list \<times> real list list \<times> fval list list \<times> nat).
     case s of (A, P, u, kk) \<Rightarrow>
       length A = nr_inputs \<and> length P = nr_inputs \<and> length u = nr_inputs
       \<and> (\<forall>i<n. \<exists>d. first_difference np (u ! i) = Inr d \<and> \<not> fval_gt d (self_eps self)))"
  from assms have l: "for_loop (random_channel np self g N amp idx) [0..<nr_inputs] (?A, ?A, ?u, k)
      = Some (Inr (U_amp, U_phase, u, k'))"
    by (simp add: get_signals_def)
  have "I nr_inputs (U_amp, U_phase, u, k')"
  proof (rule for_loop_upt_partial [OF l])
    show "I 0 (?A, ?A, ?u, k)" by (simp add: I_def)
  next
    fix i s s'
    assume i: "i < nr_inputs" and inv: "I i s"
      and b: "random_channel np self g N amp idx i s = Some (Inr s')"
    obtain A P v kk where s: "s = (A, P, v, kk)" by (cases s) auto
    from inv s have len: "length A = nr_inputs" "length P = nr_inputs" "length v = nr_inputs"
      and prev: "\<forall>j<i. \<exists>d. first_difference np (v ! j) = Inr d \<and> \<not> fval_gt d (self_eps self)"
      by (simp_all add: I_def)
    from b s obtain a ph k1 r where
      f: "get_one_feasible_signal np self g kk N amp idx = Some (Inr ((a, ph), k1))"
      and r: "normalized_time_signal np (get_complex_signal np (A[i := a] ! i) (P[i := ph] ! i)) = Inr r"
      and s': "s' = (A[i := a], P[i := ph], v[i := r], k1)"
      by (auto simp: random_channel_def Let_def split: option.splits sum.splits)
    from r i len have r': "normalized_time_signal np (get_complex_signal np a ph) = Inr r" by simp
    from get_one_feasible_signal_checked [OF f] r'
    obtain d where d: "first_difference np r = Inr d" "\<not> fval_gt d (self_eps self)"
      by (auto simp: checked_def)
    show "I (Suc i) s'"
      unfolding I_def s'
    proof (simp only: prod.case, intro conjI allI impI)
      fix j assume j: "j < Suc i"
      show "\<exists>d. first_difference np (v[i := r] ! j) = Inr d \<and> \<not> fval_gt d (self_eps self)"
        using j i len prev d by (cases "j = i") auto
    qed (simp_all add: len)
  qed
  then show ?thesis by (simp add: I_def)
qed

lemma orthogonal_mode_checked_channel_0:
  assumes "get_signals exact_numpy self g k N amp nr_inputs idx ''orthogonal'' = Some (Inr (U_amp, U_phase, u, k'))"
    and "0 < nr_inputs"
  shows "\<exists>d. first_difference exact_numpy (u ! 0) = Inr d \<and> \<not> fval_gt d (self_eps self)"
proof -
  from assms(1) obtain U_amp0 U_phase0 k1 where
    f: "get_one_feasible_signal exact_numpy self g k N amp idx = Some (Inr ((U_amp0, U_phase0), k1))"
    by (auto simp: get_signals_def split: option.splits sum.splits)
  from get_signals_orthogonal_rows_exact [OF f, of nr_inputs] assms
  have "normalized_time_signal exact_numpy (get_complex_signal exact_numpy U_amp0
          (map (\<lambda>x. x + 2 * pi * real 0 / real nr_inputs) U_phase0)) = Inr (u ! 0)"
    by auto
  then have "normalized_time_signal exact_numpy (get_complex_signal exact_numpy U_amp0 U_phase0) = Inr (u ! 0)"
    by simp
  with get_one_feasible_signal_checked [OF f] show ?thesis
    by (auto simp: checked_def)
qed

text \<open>
  \<^verbatim>\<open>diff > self.eps\<close> is also false for a \<open>NaN\<close>: with the band \<open>[0, 0]\<close> the
  amplitude array is zero once the DC component is cleared, the normalized signal is
  \<open>0 / 0\<close> everywhere, and the first attempt is accepted, in either mode (evaluated with
  the exact operations; a zero spectrum has a zero transform in binary64 as well).
\<close>

lemma amplitude_zero_band: "get_frequency_amplitude 2 amp (0, 0) = Inr [0, 0]"
  by (simp add: get_frequency_amplitude_def upto.simps Let_def eval_nat_numeral)

lemma normalized_zero_band:
  "normalized_time_signal exact_numpy (get_complex_signal exact_numpy [0, 0] [a, b]) = Inr [NaN, NaN]"
  by (simp add: normalized_time_signal_def get_time_signal_cos [where N = 2] upt_rec
      get_normalization_def np_max_def np_divide_def exact_numpy_fl)

lemma loop_body_zero_band:
  "loop_body exact_numpy g k 2 amp (0, 0) = Inr (NaN, ([0, 0], [g k * 2 * pi, g (Suc k) * 2 * pi]), k + 2)"
  by (simp add: loop_body_def get_frequency_signal_def amplitude_zero_band get_random_phase_def
      upt_rec normalized_zero_band first_difference_def item_def exact_numpy_fl exact_numpy_pi)

lemma zero_band_accepted:
  assumes "self_eps self < 1000"
  shows "get_one_feasible_signal exact_numpy self g k 2 amp (0, 0)
           = Some (Inr (([0, 0], [g k * 2 * pi, g (Suc k) * 2 * pi]), k + 2))"
proof -
  have "while_loop exact_numpy g (self_eps self) 2 amp (0, 0) NaN
          (Some ([0, 0], [g k * 2 * pi, g (Suc k) * 2 * pi])) (k + 2)
      = Some (Inr (([0, 0], [g k * 2 * pi, g (Suc k) * 2 * pi]), k + 2))"
    by (subst while_loop.simps) simp
  then have "while_loop exact_numpy g (self_eps self) 2 amp (0, 0) (Finite 1000) None k
      = Some (Inr (([0, 0], [g k * 2 * pi, g (Suc k) * 2 * pi]), k + 2))"
    using assms by (subst while_loop.simps) (simp add: loop_body_zero_band)
  then show ?thesis by (simp add: get_one_feasible_signal_def)
qed

lemma zero_band_random_channel_nan:
  assumes "self_eps self < 1000"
  shows "\<exists>U_amp U_phase k'. get_signals exact_numpy self g k 2 amp 1 (0, 0) ''random''
            = Some (Inr (U_amp, U_phase, [[NaN, NaN]], k'))
         \<and> first_difference exact_numpy [NaN, NaN] = Inr NaN \<and> \<not> fval_le NaN (self_eps self)"
  using zero_band_accepted [OF assms, of g k amp]
  by (simp add: get_signals_def random_channel_def normalized_zero_band first_difference_def
      item_def Let_def)

text \<open>
  C1 fails in mode \<^verbatim>\<open>'orthogonal'\<close>: the shifted channels are not checked again. With
  \<open>N = 4\<close>, the band \<open>[1, 2]\<close>, \<open>amp = 1\<close>, \<open>eps = 0.75\<close>, four channels and a generator
  whose first draws are \<open>0, 0, 1/2, 0\<close>, the first attempt is accepted with
  \<open>\<bar>u\<^sub>0 - u\<^sub>1\<bar> = 1/2\<close>; channel \<open>1\<close>, shifted by \<open>\<pi> / 2\<close>, is returned with the signal
  \<open>0, -1, 0, 1\<close>, for which \<open>\<bar>u\<^sub>0 - u\<^sub>1\<bar> = 1 > eps\<close>. The values are those of the exact
  operations.
\<close>

theorem orthogonal_channel_not_rechecked:
  "\<exists>self U_amp U_phase u k'.
      ExcitationSignal (\<lambda>x. x) (1, 2) 4 4 1 (3 / 4) = Inr self
      \<and> get_signals exact_numpy self (\<lambda>i. if i = 2 then 1 / 2 else 0) 0 (self_N self) (self_amp self) 4
            (self_idx self) ''orthogonal'' = Some (Inr (U_amp, U_phase, u, k'))
      \<and> u ! 0 = [Finite 0, Finite (1 / 2), Finite (- 1), Finite (1 / 2)]
      \<and> first_difference exact_numpy (u ! 0) = Inr (Finite (1 / 2))
      \<and> u ! 1 = [Finite 0, Finite (- 1), Finite 0, Finite 1]
      \<and> first_difference exact_numpy (u ! 1) = Inr (Finite 1)
      \<and> \<not> fval_le (Finite 1) (self_eps self)"
proof -
  let ?g = "\<lambda>i :: nat. if i = 2 then 1 / 2 else 0 :: real"
  from example4_record obtain self where s: "ExcitationSignal (\<lambda>x. x) (1, 2) 4 4 1 (3 / 4) = Inr self"
    and c: "self_N self = 4" "self_amp self = 1" "self_eps self = 3 / 4" "self_idx self = (1, 2)"
    by blast
  from get_signals_orthogonal_rows_exact [OF search_example4 [OF c(3)], of 4]
  obtain U_amp U_phase u where
    g: "get_signals exact_numpy self ?g 0 4 1 4 (1, 2) ''orthogonal'' = Some (Inr (U_amp, U_phase, u, 4))"
    and rows: "\<forall>i<4. normalized_time_signal exact_numpy (get_complex_signal exact_numpy [0, 1, 1, 0]
                      (map (\<lambda>x. x + 2 * pi * real i / real 4) [0, 0, pi, 0])) = Inr (u ! i)"
    by blast
  have "(0 :: nat) < 4" and "(1 :: nat) < 4" by simp_all
  with rows have r0: "normalized_time_signal exact_numpy (get_complex_signal exact_numpy [0, 1, 1, 0]
                      (map (\<lambda>x. x + 2 * pi * real 0 / real 4) [0, 0, pi, 0])) = Inr (u ! 0)"
    and r1: "normalized_time_signal exact_numpy (get_complex_signal exact_numpy [0, 1, 1, 0]
                      (map (\<lambda>x. x + 2 * pi * real 1 / real 4) [0, 0, pi, 0])) = Inr (u ! 1)"
    by blast+
  from r0 have "normalized_time_signal exact_numpy (get_complex_signal exact_numpy [0, 1, 1, 0]
                      (map (\<lambda>x. x + 2 * pi * real 0 / real 4) [0, 0, pi, 0])) = Inr (u ! 0)" .
  then have u0: "u ! 0 = [Finite 0, Finite (1 / 2), Finite (- 1), Finite (1 / 2)]"
    by (simp add: normalized_example4)
  from r1 have "normalized_time_signal exact_numpy (get_complex_signal exact_numpy [0, 1, 1, 0]
                      (map (\<lambda>x. x + 2 * pi * real 1 / real 4) [0, 0, pi, 0])) = Inr (u ! 1)" .
  then have u1: "u ! 1 = [Finite 0, Finite (- 1), Finite 0, Finite 1]"
    by (simp add: normalized_example4_shifted)
  have d0: "first_difference exact_numpy (u ! 0) = Inr (Finite (1 / 2))"
    and d1: "first_difference exact_numpy (u ! 1) = Inr (Finite 1)"
    unfolding u0 u1 by (simp_all add: first_difference_def item_def exact_numpy_fl)
  have "\<not> fval_le (Finite 1) (self_eps self)" by (simp add: c)
  with s g c u0 u1 d0 d1 show ?thesis by auto
qed

section \<open>Multi-trial assembly\<close>

lemma has_shape2_replicate: "has_shape2 (replicate nr_inputs (replicate N x)) nr_inputs N"
  by (simp add: has_shape2_def)

lemma has_shape_replicate:
  "has_shape (replicate nr_inputs (replicate m (replicate N x))) nr_inputs m N"
  by (simp add: has_shape_def)

lemma has_shape2_update:
  assumes "has_shape2 A nr_inputs N" and "length row = N"
  shows "has_shape2 (A[i := row]) nr_inputs N"
proof -
  have "set (A[i := row]) \<subseteq> insert row (set A)" by (rule set_update_subset_insert)
  with assms show ?thesis by (auto simp: has_shape2_def)
qed

lemma has_shape_rows: "has_shape u nr_inputs m N \<Longrightarrow> rows \<in> set u \<Longrightarrow> has_shape2 rows m N"
  by (simp add: has_shape_def has_shape2_def)

lemma has_shape_set_trial:
  assumes "has_shape A nr_inputs m N" and "has_shape2 B nr_inputs N"
  shows "has_shape (set_trial A i B) nr_inputs m N"
proof -
  have len: "length (set_trial A i B) = nr_inputs"
    using assms by (simp add: set_trial_def has_shape_def has_shape2_def)
  have "has_shape2 rows' m N" if "rows' \<in> set (set_trial A i B)" for rows'
  proof -
    from that obtain rows b where "rows \<in> set A" "b \<in> set B" "rows' = rows[i := b]"
      by (auto simp: set_trial_def dest: set_zip_leftD set_zip_rightD)
    moreover from this assms have "has_shape2 rows m N" "length b = N"
      by (auto simp: has_shape2_def dest: has_shape_rows)
    ultimately show ?thesis by (simp add: has_shape2_update)
  qed
  with len show ?thesis by (simp add: has_shape_def has_shape2_def)
qed

lemma get_repeat_signals_shape:
  assumes "has_shape u nr_inputs m N" and "get_repeat_signals u p = Inr us"
  shows "has_shape2 us nr_inputs (m * p * N)"
proof -
  let ?tile = "\<lambda>row :: 'a list. concat (replicate p row)"
  from assms(2) have us: "us = map (\<lambda>rows. concat (map ?tile rows)) u"
    by (auto simp: get_repeat_signals_def Let_def split: if_splits)
  have "length (concat (map ?tile rows)) = m * p * N" if "rows \<in> set u" for rows
  proof -
    from that assms(1) have r: "length rows = m" "\<forall>row \<in> set rows. length row = N"
      by (auto simp: has_shape_def)
    then have "\<forall>b \<in> set (map ?tile rows). length b = p * N"
      by (simp add: length_concat_replicate)
    from length_concat_blocks [OF this] r(1) show ?thesis by simp
  qed
  with assms(1) us show ?thesis by (simp add: has_shape2_def has_shape_def)
qed

lemma orthogonal_channel_shapes:
  assumes "orthogonal_channel np nr_inputs U_amp0 U_phase0 i s = Some (Inr s')"
    and "shapes2 nr_inputs N s" and "length U_amp0 = N" and "length U_phase0 = N"
  shows "shapes2 nr_inputs N s'"
proof -
  obtain A P u k where s: "s = (A, P, u, k)" by (cases s) auto
  let ?ph = "map (\<lambda>x. np_fl np (x + np_fl np (np_fl np (np_fl np (2 * np_pi np)
                      * real i) / real nr_inputs))) U_phase0"
  from assms(1) s obtain r where
    r: "normalized_time_signal np (get_complex_signal np (A[i := U_amp0] ! i) (P[i := ?ph] ! i)) = Inr r"
    and s': "s' = (A[i := U_amp0], P[i := ?ph], u[i := r], k)"
    by (auto simp: orthogonal_channel_def Let_def split: sum.splits)
  show ?thesis
  proof (cases "i < nr_inputs")
    case False
    with assms(2) s s' show ?thesis by (simp add: shapes2_def has_shape2_def list_update_beyond)
  next
    case True
    with assms(2) s have "A[i := U_amp0] ! i = U_amp0" "P[i := ?ph] ! i = ?ph"
      by (simp_all add: shapes2_def has_shape2_def)
    with r have "length r = N"
      using normalized_time_signal_length [OF r] assms(3,4)
      by (simp add: length_get_complex_signal)
    with assms(2-4) s s' show ?thesis
      by (simp add: shapes2_def has_shape2_update)
  qed
qed

lemma random_channel_shapes:
  assumes "random_channel np self g N amp idx i s = Some (Inr s')" and "shapes2 nr_inputs N s"
  shows "shapes2 nr_inputs N s'"
proof -
  obtain A P u k where s: "s = (A, P, u, k)" by (cases s) auto
  from assms(1) s obtain a ph k' r where
    f: "get_one_feasible_signal np self g k N amp idx = Some (Inr ((a, ph), k'))"
    and r: "normalized_time_signal np (get_complex_signal np (A[i := a] ! i) (P[i := ph] ! i)) = Inr r"
    and s': "s' = (A[i := a], P[i := ph], u[i := r], k')"
    by (auto simp: random_channel_def Let_def split: option.splits sum.splits)
  from get_one_feasible_signal_checked [OF f] checked_lengths
  have lens: "length a = N" "length ph = N" by fastforce+
  show ?thesis
  proof (cases "i < nr_inputs")
    case False
    with assms(2) s s' show ?thesis by (simp add: shapes2_def has_shape2_def list_update_beyond)
  next
    case True
    with assms(2) s have "A[i := a] ! i = a" "P[i := ph] ! i = ph"
      by (simp_all add: shapes2_def has_shape2_def)
    with r have "length r = N"
      using normalized_time_signal_length [OF r] lens
      by (simp add: length_get_complex_signal)
    with assms(2) lens s s' show ?thesis
      by (simp add: shapes2_def has_shape2_update)
  qed
qed

lemma get_signals_shapes:
  assumes "get_signals np self g k N amp nr_inputs idx mode = Some (Inr s')"
  shows "shapes2 nr_inputs N s'"
proof -
  let ?A = "replicate nr_inputs (replicate N (0 :: real))"
  let ?u = "replicate nr_inputs (replicate N (Finite 0))"
  have init: "shapes2 nr_inputs N (?A, ?A, ?u, kk)" for kk
    by (simp add: shapes2_def has_shape2_replicate)
  consider (orth) "mode = ''orthogonal''" | (rand) "mode \<noteq> ''orthogonal''" "mode = ''random''"
    | (other) "mode \<noteq> ''orthogonal''" "mode \<noteq> ''random''"
    by blast
  then show ?thesis
  proof cases
    case orth
    with assms obtain U_amp0 U_phase0 k' where
      f: "get_one_feasible_signal np self g k N amp idx = Some (Inr ((U_amp0, U_phase0), k'))"
      and l: "for_loop (orthogonal_channel np nr_inputs U_amp0 U_phase0) [0..<nr_inputs]
                (?A, ?A, ?u, k') = Some (Inr s')"
      by (auto simp: get_signals_def split: option.splits sum.splits)
    from get_one_feasible_signal_checked [OF f] checked_lengths
    have lens: "length U_amp0 = N" "length U_phase0 = N" by fastforce+
    show ?thesis
    proof (rule for_loop_upt_partial [OF l, where I = "\<lambda>_. shapes2 nr_inputs N"])
      show "shapes2 nr_inputs N (?A, ?A, ?u, k')" by (rule init)
    next
      fix i s s'
      assume a: "shapes2 nr_inputs N s"
        and b: "orthogonal_channel np nr_inputs U_amp0 U_phase0 i s = Some (Inr s')"
      show "shapes2 nr_inputs N s'"
        by (rule orthogonal_channel_shapes [OF b a lens])
    qed
  next
    case rand
    with assms have l: "for_loop (random_channel np self g N amp idx) [0..<nr_inputs]
                (?A, ?A, ?u, k) = Some (Inr s')"
      by (simp add: get_signals_def)
    show ?thesis
    proof (rule for_loop_upt_partial [OF l, where I = "\<lambda>_. shapes2 nr_inputs N"])
      show "shapes2 nr_inputs N (?A, ?A, ?u, k)" by (rule init)
    next
      fix i s s'
      assume a: "shapes2 nr_inputs N s"
        and b: "random_channel np self g N amp idx i s = Some (Inr s')"
      show "shapes2 nr_inputs N s'"
        by (rule random_channel_shapes [OF b a])
    qed
  next
    case other
    with assms have "s' = (?A, ?A, ?u, k)" by (simp add: get_signals_def)
    with init show ?thesis by simp
  qed
qed

lemma random_channel_total:
  assumes "\<forall>k. \<exists>r. get_one_feasible_signal np self g k N amp idx = Some (Inr r)"
    and "i < length (fst s)" and "i < length (fst (snd s))"
  shows "\<exists>s'. random_channel np self g N amp idx i s = Some (Inr s')"
proof -
  obtain A P u k where s: "s = (A, P, u, k)" by (cases s) auto
  from assms(1) obtain a ph k' where
    f: "get_one_feasible_signal np self g k N amp idx = Some (Inr ((a, ph), k'))"
    by (metis surj_pair)
  from get_one_feasible_signal_checked [OF f] checked_lengths
  have lens: "length a = N" "length ph = N" "0 < N" by fastforce+
  from normalized_time_signal_total [OF lens] obtain r where
    "normalized_time_signal np (get_complex_signal np a ph) = Inr r" by blast
  with f s assms(2,3) show ?thesis
    by (simp add: random_channel_def Let_def)
qed

lemma get_signals_total:
  assumes "\<forall>k. \<exists>r. get_one_feasible_signal np self g k N amp idx = Some (Inr r)"
  shows "\<exists>s'. get_signals np self g k N amp nr_inputs idx mode = Some (Inr s')"
proof -
  let ?A = "replicate nr_inputs (replicate N (0 :: real))"
  let ?u = "replicate nr_inputs (replicate N (Finite 0))"
  consider (orth) "mode = ''orthogonal''" | (rand) "mode \<noteq> ''orthogonal''" "mode = ''random''"
    | (other) "mode \<noteq> ''orthogonal''" "mode \<noteq> ''random''"
    by blast
  then show ?thesis
  proof cases
    case orth
    from assms obtain U_amp0 U_phase0 k' where
      f: "get_one_feasible_signal np self g k N amp idx = Some (Inr ((U_amp0, U_phase0), k'))"
      by (metis surj_pair)
    from get_one_feasible_signal_checked [OF f] checked_lengths
    have lens: "length U_amp0 = N" "length U_phase0 = N" "0 < N" by fastforce+
    from orthogonal_loop [OF lens, of ?A nr_inputs ?A ?u np k']
    obtain A P u where "for_loop (orthogonal_channel np nr_inputs U_amp0 U_phase0) [0..<nr_inputs]
        (?A, ?A, ?u, k') = Some (Inr (A, P, u, k'))"
      by auto
    with f orth show ?thesis by (simp add: get_signals_def)
  next
    case rand
    define I where "I = (\<lambda>(n :: nat) (s :: real list list \<times> real list list \<times> fval list list \<times> nat).
        length (fst s) = nr_inputs \<and> length (fst (snd s)) = nr_inputs)"
    have "\<exists>s'. for_loop (random_channel np self g N amp idx) [0..<nr_inputs] (?A, ?A, ?u, k)
            = Some (Inr s') \<and> I nr_inputs s'"
    proof (rule for_loop_upt_total)
      show "I 0 (?A, ?A, ?u, k)" by (simp add: I_def)
    next
      fix i s assume i: "i < nr_inputs" and inv: "I i s"
      from random_channel_total [OF assms, of i s] i inv obtain s' where
        s': "random_channel np self g N amp idx i s = Some (Inr s')"
        by (auto simp: I_def)
      then have "I (Suc i) s'"
        using inv by (auto simp: I_def random_channel_def Let_def split: prod.splits option.splits sum.splits)
      with s' show "\<exists>s'. random_channel np self g N amp idx i s = Some (Inr s') \<and> I (Suc i) s'"
        by blast
    qed
    with rand show ?thesis by (auto simp: get_signals_def)
  next
    case other
    then show ?thesis by (simp add: get_signals_def)
  qed
qed

lemma trial_shapes:
  assumes "trial np self g nr_inputs mode i s = Some (Inr s')"
    and "shapes3 nr_inputs m (self_N self) s"
  shows "shapes3 nr_inputs m (self_N self) s'"
proof -
  obtain A P u k where s: "s = (A, P, u, k)" by (cases s) auto
  from assms(1) s obtain a ph r k' where
    g: "get_signals np self g k (self_N self) (self_amp self) nr_inputs (self_idx self) mode
          = Some (Inr (a, ph, r, k'))"
    and s': "s' = (set_trial A i a, set_trial P i ph, set_trial u i r, k')"
    by (auto simp: trial_def split: option.splits sum.splits)
  from get_signals_shapes [OF g] have "has_shape2 a nr_inputs (self_N self)"
    "has_shape2 ph nr_inputs (self_N self)" "has_shape2 r nr_inputs (self_N self)"
    by (simp_all add: shapes2_def)
  with assms(2) s s' show ?thesis
    by (simp add: shapes3_def has_shape_set_trial)
qed

text \<open>
  The first feasibility search of a call decides it when it fails: in both modes, with at
  least one channel and one trial, a search that raises or does not return makes
  \<^verbatim>\<open>get_signals\<close> and \<^verbatim>\<open>get_multi_signals\<close> do the same.
\<close>

lemma get_signals_first_search:
  assumes "mode = ''orthogonal'' \<or> mode = ''random''" and "1 \<le> nr_inputs"
  shows "get_one_feasible_signal np self g k N amp idx = None \<Longrightarrow>
           get_signals np self g k N amp nr_inputs idx mode = None"
    and "get_one_feasible_signal np self g k N amp idx = Some (Inl e) \<Longrightarrow>
           get_signals np self g k N amp nr_inputs idx mode = Some (Inl e)"
proof -
  from assms(2) have u: "[0..<nr_inputs] = 0 # [1..<nr_inputs]"
    by (simp add: upt_conv_Cons)
  show "get_one_feasible_signal np self g k N amp idx = None \<Longrightarrow>
           get_signals np self g k N amp nr_inputs idx mode = None"
    using assms(1) by (auto simp: get_signals_def u random_channel_def)
  show "get_one_feasible_signal np self g k N amp idx = Some (Inl e) \<Longrightarrow>
           get_signals np self g k N amp nr_inputs idx mode = Some (Inl e)"
    using assms(1) by (auto simp: get_signals_def u random_channel_def)
qed

lemma get_multi_signals_first_search:
  assumes "mode = ''orthogonal'' \<or> mode = ''random''" and "1 \<le> nr_inputs" and "1 \<le> m"
  shows "get_one_feasible_signal np self g k (self_N self) (self_amp self) (self_idx self) = None \<Longrightarrow>
           get_multi_signals np self g k m p nr_inputs mode = None"
    and "get_one_feasible_signal np self g k (self_N self) (self_amp self) (self_idx self)
             = Some (Inl e) \<Longrightarrow>
           get_multi_signals np self g k m p nr_inputs mode = Some (Inl e)"
proof -
  from assms(3) have u: "[0..<m] = 0 # [1..<m]"
    by (simp add: upt_conv_Cons)
  show "get_one_feasible_signal np self g k (self_N self) (self_amp self) (self_idx self) = None \<Longrightarrow>
           get_multi_signals np self g k m p nr_inputs mode = None"
    using get_signals_first_search(1) [OF assms(1,2), of np self g k "self_N self" "self_amp self"
        "self_idx self"]
    by (simp add: get_multi_signals_def u trial_def Let_def)
  show "get_one_feasible_signal np self g k (self_N self) (self_amp self) (self_idx self)
             = Some (Inl e) \<Longrightarrow>
           get_multi_signals np self g k m p nr_inputs mode = Some (Inl e)"
    using get_signals_first_search(2) [OF assms(1,2), of np self g k "self_N self" "self_amp self"
        "self_idx self" e]
    by (simp add: get_multi_signals_def u trial_def Let_def)
qed

text \<open>
  The claim that \<^verbatim>\<open>get_multi_signals\<close> returns the four arrays for every
  \<open>m, p, nr_inputs \<ge> 1\<close> and valid mode fails: in the default configuration with the
  tolerance \<open>eps = 1000.0\<close>, one trial, one repetition and one channel, the call raises
  UnboundLocalError in both modes, whatever the operations of numpy and the generator.
\<close>

theorem multi_signals_unbound_for_large_eps:
  "\<exists>self. ExcitationSignal f64 (0, 5) 100 100 100 1000 = Inr self
      \<and> (\<forall>np g k. get_multi_signals np self g k 1 1 1 ''orthogonal''
                     = Some (Inl UnboundLocalError))
      \<and> (\<forall>np g k. get_multi_signals np self g k 1 1 1 ''random''
                     = Some (Inl UnboundLocalError))"
proof -
  obtain self where s: "ExcitationSignal f64 (0, 5) 100 100 100 1000 = Inr self"
    and e: "self_eps self = 1000"
    using get_freq_index_binary64_0_5
    by (simp add: ExcitationSignal_def initialization_def get_sampling_interval_def
        get_total_time_def f64_def exponent_def log2_floor.simps round_half_even_def Let_def)
  from e have ge: "1000 \<le> self_eps self" by simp
  have "get_multi_signals np self g k 1 1 1 mode = Some (Inl UnboundLocalError)"
    if "mode = ''orthogonal'' \<or> mode = ''random''" for np g k mode
    by (rule get_multi_signals_first_search(2) [OF that _ _ search_unbound [OF ge]]) simp_all
  with s show ?thesis by blast
qed

text \<open>
  C8, amended: whenever \<^verbatim>\<open>get_multi_signals\<close> returns, \<^verbatim>\<open>U_amp\<close>,
  \<^verbatim>\<open>U_phase\<close> and \<^verbatim>\<open>u\<close> have shape \<open>(nr_inputs, m, N)\<close> and the repeated sequence
  has shape \<open>(nr_inputs, m * p * N)\<close>, with \<open>N\<close> the configured point count. It does return,
  for at least one channel, when every feasibility search on the configured
  \<open>(N, amp, idx)\<close> returns a pair; the searches are the only loops without a bound. It does
  not return the arrays for every \<open>m, p, nr_inputs \<ge> 1\<close> and valid mode: when the first
  search does not return, neither does the call; when the first search raises, the call
  raises the same exception; and with \<open>eps \<ge> 1000\<close> the call raises UnboundLocalError.
\<close>

theorem multi_signals_shapes:
  "(\<forall>U_amp U_phase u us k'.
      get_multi_signals np self g k m p nr_inputs mode = Some (Inr ((U_amp, U_phase, u, us), k')) \<longrightarrow>
        has_shape U_amp nr_inputs m (self_N self) \<and> has_shape U_phase nr_inputs m (self_N self)
        \<and> has_shape u nr_inputs m (self_N self) \<and> has_shape2 us nr_inputs (m * p * self_N self))
   \<and> (1 \<le> nr_inputs \<and>
       (\<forall>k. \<exists>r. get_one_feasible_signal np self g k (self_N self) (self_amp self) (self_idx self)
                  = Some (Inr r)) \<longrightarrow>
       (\<exists>r. get_multi_signals np self g k m p nr_inputs mode = Some (Inr r)))
   \<and> (1 \<le> m \<and> 1 \<le> nr_inputs \<and> (mode = ''orthogonal'' \<or> mode = ''random'') \<longrightarrow>
       (get_one_feasible_signal np self g k (self_N self) (self_amp self) (self_idx self) = None \<longrightarrow>
          get_multi_signals np self g k m p nr_inputs mode = None)
       \<and> (\<forall>e. get_one_feasible_signal np self g k (self_N self) (self_amp self) (self_idx self)
                = Some (Inl e) \<longrightarrow>
             get_multi_signals np self g k m p nr_inputs mode = Some (Inl e))
       \<and> (1000 \<le> self_eps self \<longrightarrow>
             get_multi_signals np self g k m p nr_inputs mode = Some (Inl UnboundLocalError)))"
proof (intro conjI allI impI)
  fix U_amp U_phase u us k'
  assume r: "get_multi_signals np self g k m p nr_inputs mode = Some (Inr ((U_amp, U_phase, u, us), k'))"
  let ?N = "self_N self"
  let ?A = "replicate nr_inputs (replicate m (replicate ?N (0 :: real)))"
  let ?u = "replicate nr_inputs (replicate m (replicate ?N (Finite 0)))"
  from r have l: "for_loop (trial np self g nr_inputs mode) [0..<m] (?A, ?A, ?u, k)
        = Some (Inr (U_amp, U_phase, u, k'))"
    and rep: "get_repeat_signals u p = Inr us"
    by (auto simp: get_multi_signals_def Let_def split: option.splits sum.splits)
  have "shapes3 nr_inputs m ?N (U_amp, U_phase, u, k')"
  proof (rule for_loop_upt_partial [OF l, where I = "\<lambda>_. shapes3 nr_inputs m ?N"])
    show "shapes3 nr_inputs m ?N (?A, ?A, ?u, k)"
      by (simp add: shapes3_def has_shape_replicate)
  next
    fix i s s'
    assume a: "shapes3 nr_inputs m ?N s" and b: "trial np self g nr_inputs mode i s = Some (Inr s')"
    show "shapes3 nr_inputs m ?N s'" by (rule trial_shapes [OF b a])
  qed
  then show "has_shape U_amp nr_inputs m ?N" "has_shape U_phase nr_inputs m ?N"
    and u: "has_shape u nr_inputs m ?N"
    by (simp_all add: shapes3_def)
  from get_repeat_signals_shape [OF u rep] show "has_shape2 us nr_inputs (m * p * ?N)" .
next
  assume H: "1 \<le> nr_inputs \<and>
       (\<forall>k. \<exists>r. get_one_feasible_signal np self g k (self_N self) (self_amp self) (self_idx self)
                  = Some (Inr r))"
  let ?N = "self_N self"
  let ?A = "replicate nr_inputs (replicate m (replicate ?N (0 :: real)))"
  let ?u = "replicate nr_inputs (replicate m (replicate ?N (Finite 0)))"
  have "\<exists>s'. for_loop (trial np self g nr_inputs mode) [0..<m] (?A, ?A, ?u, k) = Some (Inr s')
          \<and> shapes3 nr_inputs m ?N s'"
  proof (rule for_loop_upt_total [where I = "\<lambda>_. shapes3 nr_inputs m ?N"])
    show "shapes3 nr_inputs m ?N (?A, ?A, ?u, k)"
      by (simp add: shapes3_def has_shape_replicate)
  next
    fix i s assume inv: "shapes3 nr_inputs m ?N s"
    obtain A P u kk where s: "s = (A, P, u, kk)" by (cases s) auto
    from get_signals_total [of np self g ?N "self_amp self" "self_idx self" kk nr_inputs mode] H
    obtain r where "get_signals np self g kk ?N (self_amp self) nr_inputs (self_idx self) mode
        = Some (Inr r)" by blast
    then obtain s' where s': "trial np self g nr_inputs mode i s = Some (Inr s')"
      using s by (cases r) (auto simp: trial_def)
    from trial_shapes [OF s' inv] s'
    show "\<exists>s'. trial np self g nr_inputs mode i s = Some (Inr s') \<and> shapes3 nr_inputs m ?N s'"
      by blast
  qed
  then obtain U_amp U_phase u k' where
    l: "for_loop (trial np self g nr_inputs mode) [0..<m] (?A, ?A, ?u, k)
          = Some (Inr (U_amp, U_phase, u, k'))"
    and sh: "shapes3 nr_inputs m ?N (U_amp, U_phase, u, k')"
    by (metis surj_pair)
  from sh H have "u \<noteq> []" by (auto simp: shapes3_def has_shape_def)
  then obtain us where "get_repeat_signals u p = Inr us"
    by (auto simp: get_repeat_signals_def Let_def)
  with l show "\<exists>r. get_multi_signals np self g k m p nr_inputs mode = Some (Inr r)"
    by (simp add: get_multi_signals_def Let_def)
next
  assume H: "1 \<le> m \<and> 1 \<le> nr_inputs \<and> (mode = ''orthogonal'' \<or> mode = ''random'')"
    and n: "get_one_feasible_signal np self g k (self_N self) (self_amp self) (self_idx self) = None"
  from H have a: "mode = ''orthogonal'' \<or> mode = ''random''" "1 \<le> nr_inputs" "1 \<le> m"
    by simp_all
  show "get_multi_signals np self g k m p nr_inputs mode = None"
    by (rule get_multi_signals_first_search(1) [OF a n])
next
  fix e
  assume H: "1 \<le> m \<and> 1 \<le> nr_inputs \<and> (mode = ''orthogonal'' \<or> mode = ''random'')"
    and n: "get_one_feasible_signal np self g k (self_N self) (self_amp self) (self_idx self)
              = Some (Inl e)"
  from H have a: "mode = ''orthogonal'' \<or> mode = ''random''" "1 \<le> nr_inputs" "1 \<le> m"
    by simp_all
  show "get_multi_signals np self g k m p nr_inputs mode = Some (Inl e)"
    by (rule get_multi_signals_first_search(2) [OF a n])
next
  assume H: "1 \<le> m \<and> 1 \<le> nr_inputs \<and> (mode = ''orthogonal'' \<or> mode = ''random'')"
    and ge: "1000 \<le> self_eps self"
  from H have a: "mode = ''orthogonal'' \<or> mode = ''random''" "1 \<le> nr_inputs" "1 \<le> m"
    by simp_all
  show "get_multi_signals np self g k m p nr_inputs mode = Some (Inl UnboundLocalError)"
    by (rule get_multi_signals_first_search(2) [OF a search_unbound [OF ge]])
qed

theorem multi_signals_shapes_witness:
  "\<exists>self self1 self2 U_amp U_phase u us k'.
      ExcitationSignal (\<lambda>x. x) (1, 1) 2 2 1 2 = Inr self
      \<and> (1 :: nat) \<le> 2
      \<and> (\<forall>k. get_one_feasible_signal exact_numpy self (\<lambda>_. 0) k (self_N self) (self_amp self)
            (self_idx self) = Some (Inr (([0, 1], [0, 0]), k + 2)))
      \<and> get_multi_signals exact_numpy self (\<lambda>_. 0) 0 2 3 2 ''orthogonal''
            = Some (Inr ((U_amp, U_phase, u, us), k'))
      \<and> has_shape U_amp 2 2 2 \<and> has_shape U_phase 2 2 2 \<and> has_shape u 2 2 2
      \<and> has_shape2 us 2 (2 * 3 * 2)
      \<and> ExcitationSignal (\<lambda>x. x) (1, 1) 2 2 1 1000 = Inr self1
      \<and> 1000 \<le> self_eps self1
      \<and> get_one_feasible_signal exact_numpy self1 (\<lambda>_. 0) 0 (self_N self1) (self_amp self1)
            (self_idx self1) = Some (Inl UnboundLocalError)
      \<and> get_multi_signals exact_numpy self1 (\<lambda>_. 0) 0 2 3 2 ''random''
            = Some (Inl UnboundLocalError)
      \<and> ExcitationSignal (\<lambda>x. x) (1, 1) 2 2 1 1 = Inr self2
      \<and> get_one_feasible_signal exact_numpy self2 (\<lambda>_. 0) 0 (self_N self2) (self_amp self2)
            (self_idx self2) = None
      \<and> get_multi_signals exact_numpy self2 (\<lambda>_. 0) 0 2 3 2 ''orthogonal'' = None"
proof -
  from example2_record_eps [of 2] obtain self where
    s: "ExcitationSignal (\<lambda>x. x) (1, 1) 2 2 1 2 = Inr self"
    and c: "self_N self = 2" "self_amp self = 1" "self_eps self = 2" "self_idx self = (1, 1)"
    by blast
  from example2_record_eps [of 1000] obtain self1 where
    s1: "ExcitationSignal (\<lambda>x. x) (1, 1) 2 2 1 1000 = Inr self1"
    and c1: "self_N self1 = 2" "self_amp self1 = 1" "self_eps self1 = 1000" "self_idx self1 = (1, 1)"
    by blast
  from example2_record_eps [of 1] obtain self2 where
    s2: "ExcitationSignal (\<lambda>x. x) (1, 1) 2 2 1 1 = Inr self2"
    and c2: "self_N self2 = 2" "self_amp self2 = 1" "self_eps self2 = 1" "self_idx self2 = (1, 1)"
    by blast
  have H: "\<forall>k. \<exists>r. get_one_feasible_signal exact_numpy self (\<lambda>_. 0) k (self_N self) (self_amp self)
      (self_idx self) = Some (Inr r)"
    using search_example2 [OF c(3)] c by simp
  have f: "\<forall>k. get_one_feasible_signal exact_numpy self (\<lambda>_. 0) k (self_N self) (self_amp self)
            (self_idx self) = Some (Inr (([0, 1], [0, 0]), k + 2))"
    using search_example2 [OF c(3)] c by simp
  note shapes = multi_signals_shapes [of exact_numpy self "\<lambda>_. 0" 0 2 3 2 "''orthogonal''"]
  from shapes H obtain r where
    "get_multi_signals exact_numpy self (\<lambda>_. 0) 0 2 3 2 ''orthogonal'' = Some (Inr r)"
    by auto
  then obtain U_amp U_phase u us k' where
    r: "get_multi_signals exact_numpy self (\<lambda>_. 0) 0 2 3 2 ''orthogonal''
          = Some (Inr ((U_amp, U_phase, u, us), k'))"
    by (metis surj_pair)
  with shapes c(1) have sh: "has_shape U_amp 2 2 2 \<and> has_shape U_phase 2 2 2 \<and> has_shape u 2 2 2
      \<and> has_shape2 us 2 (2 * 3 * 2)"
    by simp
  have ge: "1000 \<le> self_eps self1" using c1 by simp
  have f1: "get_one_feasible_signal exact_numpy self1 (\<lambda>_. 0) 0 (self_N self1) (self_amp self1)
            (self_idx self1) = Some (Inl UnboundLocalError)"
    by (rule search_unbound [OF ge])
  from multi_signals_shapes [of exact_numpy self1 "\<lambda>_. 0" 0 2 3 2 "''random''"] ge
  have r1: "get_multi_signals exact_numpy self1 (\<lambda>_. 0) 0 2 3 2 ''random''
      = Some (Inl UnboundLocalError)"
    by simp
  have f2: "get_one_feasible_signal exact_numpy self2 (\<lambda>_. 0) 0 (self_N self2) (self_amp self2)
            (self_idx self2) = None"
    unfolding c2 by (rule search_example2_diverges [OF c2(3)])
  with multi_signals_shapes [of exact_numpy self2 "\<lambda>_. 0" 0 2 3 2 "''orthogonal''"]
  have r2: "get_multi_signals exact_numpy self2 (\<lambda>_. 0) 0 2 3 2 ''orthogonal'' = None"
    by simp
  have "(1 :: nat) \<le> 2" by simp
  with s f r sh s1 ge f1 r1 s2 f2 r2 show ?thesis by blast
qed

end
